theory Spec2Isabelle
  imports Main
begin

section \<open>JavaScript values\<close>

text \<open>
  The values that flow through \<^verbatim>\<open>src/scripts/DataLayer.js\<close>: the payloads pushed to the
  data layer array and the nested state object. An object is the list of its own enumerable
  properties in insertion order (keys are expected to be distinct), an array is the list of
  its elements (a hole reads as \<open>undefined\<close> and is modelled as \<open>JUndefined\<close>), and a
  function is an opaque reference \<open>JFun f\<close> without properties of its own. Numbers are
  integers. Values are compared structurally, so a deep copy of a value is the value itself.
  Keys with a special meaning to the JavaScript runtime (\<open>length\<close> on an array,
  \<open>__proto__\<close>, \<open>constructor\<close>) and the runtime's reordering of integer-like object keys
  are outside the model.
\<close>

datatype jsval =
    JUndefined
  | JNull
  | JBool bool
  | JNum int
  | JStr string
  | JFun nat
  | JArr "jsval list"
  | JObj "(string \<times> jsval) list"

type_synonym props = "(string \<times> jsval) list"

text \<open>\<open>object[key]\<close> and \<open>object[key] = value\<close> on the own properties of an object.\<close>

fun get_prop :: "props \<Rightarrow> string \<Rightarrow> jsval" where
  "get_prop [] k = JUndefined"
| "get_prop ((k', v) # ps) k = (if k' = k then v else get_prop ps k)"

fun has_prop :: "props \<Rightarrow> string \<Rightarrow> bool" where
  "has_prop [] k = False"
| "has_prop ((k', v) # ps) k = (k' = k \<or> has_prop ps k)"

fun set_prop :: "props \<Rightarrow> string \<Rightarrow> jsval \<Rightarrow> props" where
  "set_prop [] k v = [(k, v)]"
| "set_prop ((k', v') # ps) k v =
     (if k' = k then (k, v) # ps else (k', v') # set_prop ps k v)"

text \<open>
  \<open>array[i]\<close> and \<open>array[i] = value\<close>: a read past the end gives \<open>undefined\<close>, a write past
  the end extends the array (the skipped slots are holes).
\<close>

definition get_index :: "jsval list \<Rightarrow> nat \<Rightarrow> jsval" where
  "get_index xs i = (if i < length xs then xs ! i else JUndefined)"

definition set_index :: "jsval list \<Rightarrow> nat \<Rightarrow> jsval \<Rightarrow> jsval list" where
  "set_index xs i v =
     (if i < length xs then xs[i := v]
      else xs @ replicate (i - length xs) JUndefined @ [v])"

text \<open>
  A property key that is an array index: a decimal numeral without leading zeros, below
  \<open>2^32 - 1\<close>.
\<close>

definition digit_value :: "char \<Rightarrow> nat option" where
  "digit_value c =
     (let n = of_char c :: nat in if 48 \<le> n \<and> n \<le> 57 then Some (n - 48) else None)"

fun digits_value :: "nat \<Rightarrow> string \<Rightarrow> nat option" where
  "digits_value acc [] = Some acc"
| "digits_value acc (c # cs) =
     (case digit_value c of None \<Rightarrow> None | Some d \<Rightarrow> digits_value (10 * acc + d) cs)"

definition array_index :: "string \<Rightarrow> nat option" where
  "array_index k =
     (if k = [] \<or> (hd k = CHR ''0'' \<and> k \<noteq> ''0'') then None
      else case digits_value 0 k of
             None \<Rightarrow> None
           | Some n \<Rightarrow> if n < 4294967295 then Some n else None)"

text \<open>JavaScript truthiness, as tested by \<^verbatim>\<open>if (x)\<close>.\<close>

fun truthy :: "jsval \<Rightarrow> bool" where
  "truthy JUndefined = False"
| "truthy JNull = False"
| "truthy (JBool b) = b"
| "truthy (JNum n) = (n \<noteq> 0)"
| "truthy (JStr s) = (s \<noteq> [])"
| "truthy (JFun f) = True"
| "truthy (JArr xs) = True"
| "truthy (JObj ps) = True"

section \<open>The lodash functions used by the merge\<close>

fun isObject :: "jsval \<Rightarrow> bool" where
  "isObject (JArr xs) = True"
| "isObject (JObj ps) = True"
| "isObject (JFun f) = True"
| "isObject v = False"

fun isArray :: "jsval \<Rightarrow> bool" where
  "isArray (JArr xs) = True"
| "isArray v = False"

definition isNull :: "jsval \<Rightarrow> bool" where
  "isNull v = (v = JNull)"

text \<open>\<^verbatim>\<open>reject(collection, predicate)\<close> on an array.\<close>

definition reject :: "jsval list \<Rightarrow> (jsval \<Rightarrow> bool) \<Rightarrow> jsval list" where
  "reject xs predicate = filter (\<lambda>x. \<not> predicate x) xs"

text \<open>\<^verbatim>\<open>cloneDeep(value)\<close>: values are immutable here, the copy is the value.\<close>

definition cloneDeep :: "'a \<Rightarrow> 'a" where
  "cloneDeep v = v"

text \<open>
  \<^verbatim>\<open>assign(object, source)\<close>: every own property of the source is written to the object;
  a property the source lacks is left as it is.
\<close>

definition assign :: "props \<Rightarrow> props \<Rightarrow> props" where
  "assign object source = foldl (\<lambda>acc (k, v). set_prop acc k v) object source"

lemma size_elem_less: "x \<in> set xs \<Longrightarrow> size x < Suc (size_list size xs)"
  by (induction xs) auto

lemma size_prop_less:
  "(k, v) \<in> set ps \<Longrightarrow> size v < Suc (size_list (size_prod (\<lambda>x. 0) size) ps)"
  by (induction ps) auto

lemma size_enumerate_less:
  "(i, x) \<in> set (enumerate n xs) \<Longrightarrow> size x < Suc (size_list size xs)"
  by (auto simp: in_set_enumerate_eq intro: size_elem_less)

section \<open>The delete-aware merge\<close>

text \<open>
  \<^verbatim>\<open>omitDeep(value, predicate)\<close> is \<^verbatim>\<open>cloneDeepWith\<close> under
  \<^verbatim>\<open>omittingCloneDeepCustomizer\<close>. The customizer answers for every object: an array is
  rebuilt from its elements that the predicate does not reject, any other object (a
  function too, which has no own keys) is rebuilt from its own keys whose value the
  predicate does not reject. For a primitive the customizer returns \<open>undefined\<close> and
  \<^verbatim>\<open>cloneDeepWith\<close> returns the primitive itself.
\<close>

function omittingCloneDeep :: "(jsval \<Rightarrow> bool) \<Rightarrow> jsval \<Rightarrow> jsval" where
  "omittingCloneDeep predicate (JArr xs) =
     JArr (map (omittingCloneDeep predicate) (reject xs predicate))"
| "omittingCloneDeep predicate (JObj ps) =
     JObj (map (\<lambda>(k, v). (k, omittingCloneDeep predicate v))
            (filter (\<lambda>(k, v). \<not> predicate v) ps))"
| "omittingCloneDeep predicate (JFun f) = JObj []"
| "omittingCloneDeep predicate JUndefined = JUndefined"
| "omittingCloneDeep predicate JNull = JNull"
| "omittingCloneDeep predicate (JBool b) = JBool b"
| "omittingCloneDeep predicate (JNum n) = JNum n"
| "omittingCloneDeep predicate (JStr s) = JStr s"
  by pat_completeness auto
termination
  by (relation "measure (\<lambda>(p, v). size v)")
    (auto simp: reject_def intro: size_elem_less size_prop_less)

definition omitDeep :: "props \<Rightarrow> (jsval \<Rightarrow> bool) \<Rightarrow> props" where
  "omitDeep object predicate =
     (case omittingCloneDeep predicate (JObj object) of JObj ps \<Rightarrow> ps | v \<Rightarrow> [])"

text \<open>
  \<^verbatim>\<open>mergeWith(object, source, customizer)\<close> with the customizer of \<^verbatim>\<open>_customMerge\<close>, which
  returns \<open>null\<close> for an \<open>undefined\<close> or \<open>null\<close> source value and \<open>undefined\<close> (lodash's
  default handling) otherwise. \<open>mergeValue objValue srcValue\<close> is the value lodash stores
  under a key whose current value is \<open>objValue\<close> when the source holds \<open>srcValue\<close> there:
  \<^item> a primitive source value is stored as it is, \<open>null\<close> standing for \<open>undefined\<close> and
    \<open>null\<close>;
  \<^item> a function is stored by reference;
  \<^item> a source array is merged index by index into the array already there, or into a new
    empty array when the current value is not an array;
  \<^item> a plain source object is merged key by key into the object or array already there,
    or into a new empty object when the current value is a function or not an object.
    Merged into an array, a key that is an array index writes that element; the other
    keys would become non-index properties of the array, which the following
    \<^verbatim>\<open>omitDeep\<close> does not copy, and are skipped.
  lodash writes the merged value back only when it differs from the current one; in a
  model of values that is the same as always writing it.
\<close>

function mergeValue :: "jsval \<Rightarrow> jsval \<Rightarrow> jsval" where
  "mergeValue objValue JUndefined = JNull"
| "mergeValue objValue JNull = JNull"
| "mergeValue objValue (JBool b) = JBool b"
| "mergeValue objValue (JNum n) = JNum n"
| "mergeValue objValue (JStr s) = JStr s"
| "mergeValue objValue (JFun f) = JFun f"
| "mergeValue objValue (JArr ss) =
     JArr (foldl (\<lambda>acc (i, s). set_index acc i (mergeValue (get_index acc i) s))
            (case objValue of JArr ts \<Rightarrow> ts | v \<Rightarrow> [])
            (enumerate 0 ss))"
| "mergeValue objValue (JObj sp) =
     (case objValue of
        JArr ts \<Rightarrow>
          JArr (foldl (\<lambda>acc (k, s).
                  case array_index k of
                    Some i \<Rightarrow> set_index acc i (mergeValue (get_index acc i) s)
                  | None \<Rightarrow> acc)
                ts sp)
      | JObj tp \<Rightarrow>
          JObj (foldl (\<lambda>acc (k, s). set_prop acc k (mergeValue (get_prop acc k) s)) tp sp)
      | v \<Rightarrow>
          JObj (foldl (\<lambda>acc (k, s). set_prop acc k (mergeValue (get_prop acc k) s)) [] sp))"
  by pat_completeness auto
termination
  by (relation "measure (\<lambda>(ov, v). size v)")
    (auto intro: size_prop_less size_enumerate_less)

definition mergeWith :: "props \<Rightarrow> props \<Rightarrow> props" where
  "mergeWith object source =
     foldl (\<lambda>acc (k, s). set_prop acc k (mergeValue (get_prop acc k) s)) object source"

text \<open>
  \<^verbatim>\<open>DataLayer.Manager.prototype._customMerge\<close> (lines 119-153): merge the source into the
  object, then assign to the object its own copy without nulls.
\<close>

definition customMerge :: "props \<Rightarrow> props \<Rightarrow> props" where
  "customMerge object source =
     (let merged = mergeWith object source
      in assign merged (omitDeep merged isNull))"

section \<open>Commands and listeners\<close>

text \<open>
  Modelled from the spec: \<^verbatim>\<open>DataLayerConstants.js\<close> is not among the sources. The item
  types are the five keys of \<^verbatim>\<open>typeProcessors\<close>; the spec's sixth kind, \<open>Invalid\<close>, is the
  type of an item that is not valid and is none of the five. The listener scopes are the
  three the spec names.
\<close>

datatype itemType = DATA | EVENT | FCTN | LISTENER_ON | LISTENER_OFF | INVALID

datatype listenerScope = SCOPE_PAST | SCOPE_FUTURE | SCOPE_ALL

text \<open>
  Modelled from the spec: the fields of a command that \<^verbatim>\<open>DataLayer.js\<close> reads
  (\<^verbatim>\<open>item.config\<close>, \<^verbatim>\<open>item.type\<close>, \<^verbatim>\<open>item.valid\<close>, \<^verbatim>\<open>item.index\<close>, \<^verbatim>\<open>item.data\<close>).
\<close>

record item =
  config :: jsval
  itype :: itemType
  valid :: bool
  index :: "nat option"
  data :: "props option"

fun isString :: "jsval \<Rightarrow> bool" where
  "isString (JStr s) = True"
| "isString v = False"

fun isFunction :: "jsval \<Rightarrow> bool" where
  "isFunction (JFun f) = True"
| "isFunction v = False"

fun isMapping :: "jsval \<Rightarrow> bool" where
  "isMapping (JObj ps) = True"
| "isMapping v = False"

text \<open>
  Modelled from the spec: \<^verbatim>\<open>DataLayerItem.js\<close> is not among the sources. The shape rules
  of the spec's command classifier, in their priority: an \<open>event\<close> field makes an Event
  when it is a string and an Invalid command otherwise; a \<open>data\<close> mapping makes a Data
  command; an \<open>on\<close> field makes a ListenerOn when it is a string and the handler is
  callable, and an Invalid command otherwise; an \<open>off\<close> string makes a ListenerOff; a
  function is a Function command; anything else is Invalid.
\<close>

fun classify :: "jsval \<Rightarrow> itemType" where
  "classify (JObj ps) =
     (if has_prop ps ''event'' then
        (if isString (get_prop ps ''event'') then EVENT else INVALID)
      else if isMapping (get_prop ps ''data'') then DATA
      else if has_prop ps ''on'' then
        (if isString (get_prop ps ''on'') \<and> isFunction (get_prop ps ''handler'')
         then LISTENER_ON else INVALID)
      else if isString (get_prop ps ''off'') then LISTENER_OFF
      else INVALID)"
| "classify (JFun f) = FCTN"
| "classify v = INVALID"

text \<open>
  Modelled from the spec: the \<open>data\<close> of a command is the nested mapping of its payload,
  present for the Data and Event kinds when supplied.
\<close>

fun payload_data :: "jsval \<Rightarrow> props option" where
  "payload_data (JObj ps) =
     (case get_prop ps ''data'' of JObj d \<Rightarrow> Some d | v \<Rightarrow> None)"
| "payload_data v = None"

text \<open>
  Modelled from the spec: \<^verbatim>\<open>new DataLayer.Item(itemConfig, index)\<close> keeps the payload and
  the index it is given, classifies the payload, and is valid unless its kind is Invalid.
\<close>

definition Item :: "jsval \<Rightarrow> nat option \<Rightarrow> item" where
  "Item itemConfig i =
     \<lparr> config = itemConfig,
       itype = classify itemConfig,
       valid = (classify itemConfig \<noteq> INVALID),
       index = i,
       data = (if classify itemConfig = DATA \<or> classify itemConfig = EVENT
               then payload_data itemConfig else None) \<rparr>"

text \<open>
  Modelled from the spec: a listener has an event name, an optional path, a scope and a
  handler.
\<close>

record listener =
  event :: jsval
  path :: jsval
  scope :: listenerScope
  handler :: jsval

text \<open>
  Modelled from the spec: \<^verbatim>\<open>DataLayerListener.js\<close> is not among the sources. A listener
  takes its event name from \<open>on\<close> (or \<open>off\<close>), its path and handler from the fields of
  these names, and its scope from \<open>scope\<close>, where a missing or unrecognised value is \<open>All\<close>.
\<close>

definition parse_scope :: "jsval \<Rightarrow> listenerScope" where
  "parse_scope v =
     (if v = JStr ''past'' then SCOPE_PAST else if v = JStr ''future'' then SCOPE_FUTURE else SCOPE_ALL)"

definition Listener :: "item \<Rightarrow> listener" where
  "Listener it =
     (case config it of
        JObj ps \<Rightarrow>
          \<lparr> event = (if has_prop ps ''on'' then get_prop ps ''on'' else get_prop ps ''off''),
            path = get_prop ps ''path'',
            scope = parse_scope (get_prop ps ''scope''),
            handler = get_prop ps ''handler'' \<rparr>
      | v \<Rightarrow> \<lparr> event = JUndefined, path = JUndefined, scope = SCOPE_ALL, handler = JUndefined \<rparr>)"

section \<open>The manager and its observable effects\<close>

text \<open>
  What the manager does to the outside is recorded in order: a diagnostic written with
  \<^verbatim>\<open>console.error\<close> (with the payload it reports), the call of a Function command (the
  function, its receiver, its arguments), the call of a listener's handler for an item,
  and the diagnostic for a handler that threw. Callbacks are opaque: a callback is known
  by its reference, it either returns or throws, and it does not itself push to the data
  layer or touch the manager.
\<close>

datatype effect =
    ConsoleError jsval
  | FunctionCall nat jsval "jsval list"
  | HandlerCall listener item
  | HandlerError listener item

datatype exn = Thrown nat | TypeError

datatype completion = Returned jsval | Raised exn

record manager =
  dataLayer :: "jsval list"
  state :: props
  previousStateCopy :: props
  listeners :: "listener list"
  effects :: "effect list"

text \<open>
  The environment of a run: which callbacks throw when called, and which listeners match
  which commands (the spec's matching by event name and path, whose constant names are
  not among the sources).
\<close>

record env =
  throws :: "nat \<Rightarrow> bool"
  matches :: "listener \<Rightarrow> item \<Rightarrow> bool"

section \<open>The listener registry\<close>

text \<open>
  Modelled from the spec: \<^verbatim>\<open>DataLayerListenerManagerFactory.js\<close> is not among the sources.
  \<open>register\<close> inserts a listener unless one with the same event name, path and handler
  is there, and reports whether it inserted. \<open>unregister\<close> removes the listeners of the
  event name, only those with the given handler when one is given. \<open>triggerListener\<close>
  calls the handler of a listener that matches the command; an exception of the handler
  is caught there and logged. \<open>triggerListeners\<close> does so for every registered listener.
\<close>

definition same_listener :: "listener \<Rightarrow> listener \<Rightarrow> bool" where
  "same_listener a b = (event a = event b \<and> path a = path b \<and> handler a = handler b)"

definition register :: "listener \<Rightarrow> manager \<Rightarrow> bool \<times> manager" where
  "register l m =
     (if list_ex (same_listener l) (listeners m) then (False, m)
      else (True, m\<lparr> listeners := listeners m @ [l] \<rparr>))"

definition unregister :: "listener \<Rightarrow> manager \<Rightarrow> manager" where
  "unregister l m =
     m\<lparr> listeners :=
         filter (\<lambda>r. \<not> (event r = event l \<and> (isFunction (handler l) \<longrightarrow> handler r = handler l)))
           (listeners m) \<rparr>"

definition handler_throws :: "env \<Rightarrow> listener \<Rightarrow> bool" where
  "handler_throws e l = (case handler l of JFun h \<Rightarrow> throws e h | v \<Rightarrow> True)"

definition handler_effects :: "env \<Rightarrow> listener \<Rightarrow> item \<Rightarrow> effect list" where
  "handler_effects e l it =
     (if matches e l it then
        HandlerCall l it # (if handler_throws e l then [HandlerError l it] else [])
      else [])"

definition triggerListener :: "env \<Rightarrow> listener \<Rightarrow> item \<Rightarrow> manager \<Rightarrow> manager" where
  "triggerListener e l it m = m\<lparr> effects := effects m @ handler_effects e l it \<rparr>"

definition triggerListeners :: "env \<Rightarrow> item \<Rightarrow> manager \<Rightarrow> manager" where
  "triggerListeners e it m = foldl (\<lambda>acc l. triggerListener e l it acc) m (listeners m)"

section \<open>The dispatcher\<close>

text \<open>
  \<^verbatim>\<open>_updateState\<close> (lines 107-110): snapshot, then merge \<^verbatim>\<open>item.data\<close>. An item without
  data gives \<^verbatim>\<open>mergeWith\<close> nothing to merge, as an empty source does.
\<close>

definition source_of :: "item \<Rightarrow> props" where
  "source_of it = (case data it of Some d \<Rightarrow> d | None \<Rightarrow> [])"

definition updateState :: "item \<Rightarrow> manager \<Rightarrow> manager" where
  "updateState it m =
     (let m1 = m\<lparr> previousStateCopy := cloneDeep (state m) \<rparr>
      in m1\<lparr> state := customMerge (state m1) (source_of it) \<rparr>)"

text \<open>
  \<^verbatim>\<open>_getBefore\<close> (lines 303-308). An item built without an index has the index
  \<open>undefined\<close>: the comparison \<^verbatim>\<open>undefined > length - 1\<close> is false and
  \<^verbatim>\<open>slice(0, undefined)\<close> is the whole array.
\<close>

definition getBefore :: "item \<Rightarrow> manager \<Rightarrow> item list" where
  "getBefore it m =
     (let q = dataLayer m in
      if \<not> (length q = 0 \<or> (case index it of Some i \<Rightarrow> i > length q - 1 | None \<Rightarrow> False))
      then map (\<lambda>itemConfig. Item itemConfig None)
             (case index it of Some i \<Rightarrow> take i q | None \<Rightarrow> q)
      else [])"

text \<open>The five \<^verbatim>\<open>typeProcessors\<close> of \<^verbatim>\<open>_processItem\<close> (lines 310-350).\<close>

definition process_data :: "env \<Rightarrow> item \<Rightarrow> manager \<Rightarrow> completion \<times> manager" where
  "process_data e it m =
     (Returned JUndefined, triggerListeners e it (updateState it m))"

definition process_fctn :: "env \<Rightarrow> item \<Rightarrow> manager \<Rightarrow> completion \<times> manager" where
  "process_fctn e it m =
     (case config it of
        JFun f \<Rightarrow>
          (if throws e f then Raised (Thrown f) else Returned JUndefined,
           m\<lparr> effects := effects m @ [FunctionCall f (JArr (dataLayer m)) [JArr (dataLayer m)]] \<rparr>)
      | v \<Rightarrow> (Raised TypeError, m))"

definition process_event :: "env \<Rightarrow> item \<Rightarrow> manager \<Rightarrow> completion \<times> manager" where
  "process_event e it m =
     (case data it of
        Some d \<Rightarrow> (Returned JUndefined, triggerListeners e it (updateState it m))
      | None \<Rightarrow> (Returned JUndefined, triggerListeners e it m))"

definition replay :: "env \<Rightarrow> listener \<Rightarrow> item list \<Rightarrow> manager \<Rightarrow> manager" where
  "replay e l its m = foldl (\<lambda>acc registeredItem. triggerListener e l registeredItem acc) m its"

definition process_listenerOn :: "env \<Rightarrow> item \<Rightarrow> manager \<Rightarrow> completion \<times> manager" where
  "process_listenerOn e it m =
     (let l = Listener it in
      case scope l of
        SCOPE_PAST \<Rightarrow> (Returned JUndefined, replay e l (getBefore it m) m)
      | SCOPE_FUTURE \<Rightarrow> (Returned JUndefined, snd (register l m))
      | SCOPE_ALL \<Rightarrow>
          (case register l m of
             (registered, m1) \<Rightarrow>
               (Returned JUndefined,
                if registered then replay e l (getBefore it m1) m1 else m1)))"

definition process_listenerOff :: "env \<Rightarrow> item \<Rightarrow> manager \<Rightarrow> completion \<times> manager" where
  "process_listenerOff e it m = (Returned JUndefined, unregister (Listener it) m)"

text \<open>
  \<^verbatim>\<open>_processItem\<close> (lines 285-353): an item that is not valid is reported with
  \<^verbatim>\<open>console.error\<close> and nothing else happens; a valid item goes to the processor of its
  type.
\<close>

definition processItem :: "env \<Rightarrow> item \<Rightarrow> manager \<Rightarrow> completion \<times> manager" where
  "processItem e it m =
     (if \<not> valid it then
        (Returned JUndefined, m\<lparr> effects := effects m @ [ConsoleError (config it)] \<rparr>)
      else case itype it of
        DATA \<Rightarrow> process_data e it m
      | FCTN \<Rightarrow> process_fctn e it m
      | EVENT \<Rightarrow> process_event e it m
      | LISTENER_ON \<Rightarrow> process_listenerOn e it m
      | LISTENER_OFF \<Rightarrow> process_listenerOff e it m
      | INVALID \<Rightarrow> (Raised TypeError, m))"

lemma triggerListener_fields [simp]:
  "dataLayer (triggerListener e l it m) = dataLayer m"
  "state (triggerListener e l it m) = state m"
  "previousStateCopy (triggerListener e l it m) = previousStateCopy m"
  "listeners (triggerListener e l it m) = listeners m"
  by (simp_all add: triggerListener_def)

lemma foldl_triggerListener_fields [simp]:
  "dataLayer (foldl (\<lambda>acc l. triggerListener e l it acc) m ls) = dataLayer m"
  "state (foldl (\<lambda>acc l. triggerListener e l it acc) m ls) = state m"
  "previousStateCopy (foldl (\<lambda>acc l. triggerListener e l it acc) m ls) = previousStateCopy m"
  "listeners (foldl (\<lambda>acc l. triggerListener e l it acc) m ls) = listeners m"
  by (induction ls arbitrary: m) simp_all

lemma triggerListeners_fields [simp]:
  "dataLayer (triggerListeners e it m) = dataLayer m"
  "state (triggerListeners e it m) = state m"
  "previousStateCopy (triggerListeners e it m) = previousStateCopy m"
  "listeners (triggerListeners e it m) = listeners m"
  by (simp_all add: triggerListeners_def)

lemma replay_fields [simp]:
  "dataLayer (replay e l its m) = dataLayer m"
  "state (replay e l its m) = state m"
  "previousStateCopy (replay e l its m) = previousStateCopy m"
  "listeners (replay e l its m) = listeners m"
  unfolding replay_def by (induction its arbitrary: m) simp_all

lemma updateState_fields [simp]:
  "dataLayer (updateState it m) = dataLayer m"
  "listeners (updateState it m) = listeners m"
  "effects (updateState it m) = effects m"
  "state (updateState it m) = customMerge (state m) (source_of it)"
  "previousStateCopy (updateState it m) = state m"
  by (simp_all add: updateState_def cloneDeep_def Let_def)

lemma register_dataLayer [simp]: "dataLayer (snd (register l m)) = dataLayer m"
  by (simp add: register_def)

lemma processItem_dataLayer: "dataLayer (snd (processItem e it m)) = dataLayer m"
  by (auto simp: processItem_def process_data_def process_fctn_def process_event_def
      process_listenerOn_def process_listenerOff_def unregister_def Let_def
      split: itemType.splits jsval.splits option.splits listenerScope.splits prod.splits
      dest: arg_cong [where f = "\<lambda>r. dataLayer (snd r)" and x = "register l m" for l m])

lemma processItem_dataLayer_eq:
  "(c, m1) = processItem e it m \<Longrightarrow> dataLayer m1 = dataLayer m"
  using processItem_dataLayer [of e it m] by (metis snd_conv)

text \<open>
  \<^verbatim>\<open>_processItems\<close> (lines 260-277): the loop over the array present at construction. An
  entry that is a listener command, a function or not valid is spliced out after it has
  been processed, and the loop stays at its position. An exception of a Function command
  leaves the loop.
\<close>

definition removable :: "item \<Rightarrow> bool" where
  "removable it =
     (itype it = LISTENER_ON \<or> itype it = LISTENER_OFF \<or> itype it = FCTN \<or> \<not> valid it)"

definition splice1 :: "jsval list \<Rightarrow> nat \<Rightarrow> jsval list" where
  "splice1 q i = take i q @ drop (Suc i) q"

function processItems :: "env \<Rightarrow> nat \<Rightarrow> manager \<Rightarrow> completion \<times> manager" where
  "processItems e i m =
     (if i < length (dataLayer m) then
        (let it = Item (dataLayer m ! i) (Some i) in
         case processItem e it m of
           (Raised x, m1) \<Rightarrow> (Raised x, m1)
         | (Returned r, m1) \<Rightarrow>
             if removable it
             then processItems e i (m1\<lparr> dataLayer := splice1 (dataLayer m1) i \<rparr>)
             else processItems e (i + 1) m1)
      else (Returned JUndefined, m))"
  by pat_completeness auto
termination
  by (relation "measure (\<lambda>(e, i, m). length (dataLayer m) - i)")
    (auto dest!: processItem_dataLayer_eq simp: splice1_def)

declare processItems.simps [simp del]

text \<open>
  \<^verbatim>\<open>_initialize\<close> (lines 85-99): the configured array (a new empty one when the
  configuration holds no array), an empty state, an empty previous state, an empty
  registry; then the items already in the array are processed.
\<close>

definition initialize :: "env \<Rightarrow> jsval \<Rightarrow> completion \<times> manager" where
  "initialize e configDataLayer =
     processItems e 0
       \<lparr> dataLayer = (case configDataLayer of JArr q \<Rightarrow> q | v \<Rightarrow> []),
         state = [],
         previousStateCopy = [],
         listeners = [],
         effects = [] \<rparr>"

text \<open>
  The overridden \<^verbatim>\<open>push\<close> (lines 169-201). \<open>push_arg\<close> is the body of the \<^verbatim>\<open>forEach\<close> for
  one argument: it returns whether the argument was deleted from \<^verbatim>\<open>filteredArguments\<close>.
  \<open>push_args\<close> is the \<^verbatim>\<open>forEach\<close>: it returns the arguments as \<^verbatim>\<open>filteredArguments\<close>
  holds them afterwards, a deleted one reading as \<open>undefined\<close>. An exception leaves the
  \<^verbatim>\<open>forEach\<close> and the call.
\<close>

definition push_arg :: "env \<Rightarrow> jsval \<Rightarrow> manager \<Rightarrow> completion \<times> bool \<times> manager" where
  "push_arg e itemConfig m =
     (let it = Item itemConfig None;
          deleted = (\<not> valid it)
      in case itype it of
           DATA \<Rightarrow> (case processItem e it m of (c, m1) \<Rightarrow> (c, deleted, m1))
         | EVENT \<Rightarrow> (case processItem e it m of (c, m1) \<Rightarrow> (c, deleted, m1))
         | FCTN \<Rightarrow> (case processItem e it m of (c, m1) \<Rightarrow> (c, True, m1))
         | LISTENER_ON \<Rightarrow> (Returned JUndefined, True, m)
         | LISTENER_OFF \<Rightarrow> (Returned JUndefined, True, m)
         | INVALID \<Rightarrow> (Returned JUndefined, deleted, m))"

fun push_args :: "env \<Rightarrow> jsval list \<Rightarrow> manager \<Rightarrow> completion \<times> jsval list \<times> manager" where
  "push_args e [] m = (Returned JUndefined, [], m)"
| "push_args e (a # as) m =
     (case push_arg e a m of
        (Raised x, deleted, m1) \<Rightarrow> (Raised x, [], m1)
      | (Returned r, deleted, m1) \<Rightarrow>
          (case push_args e as m1 of
             (c, filtered, m2) \<Rightarrow> (c, (if deleted then JUndefined else a) # filtered, m2)))"

definition push :: "env \<Rightarrow> jsval list \<Rightarrow> manager \<Rightarrow> completion \<times> manager" where
  "push e arguments m =
     (case push_args e arguments m of
        (Raised x, filteredArguments, m1) \<Rightarrow> (Raised x, m1)
      | (Returned r, filteredArguments, m1) \<Rightarrow>
          if truthy (get_index filteredArguments 0)
          then (Returned (JNum (int (length (dataLayer m1 @ filteredArguments)))),
                m1\<lparr> dataLayer := dataLayer m1 @ filteredArguments \<rparr>)
          else (Returned JUndefined, m1))"

text \<open>\<^verbatim>\<open>getState()\<close> without a path (line 213).\<close>

definition getState :: "manager \<Rightarrow> props" where
  "getState m = cloneDeep (state m)"

text \<open>
  \<^verbatim>\<open>addEventListener\<close> and \<^verbatim>\<open>removeEventListener\<close> (lines 228-252): the item is built
  without an index and processed. \<^verbatim>\<open>options && options.scope\<close> is \<open>options\<close> itself when
  it is falsy.
\<close>

definition option_field :: "jsval \<Rightarrow> string \<Rightarrow> jsval" where
  "option_field options k =
     (if truthy options then (case options of JObj ps \<Rightarrow> get_prop ps k | v \<Rightarrow> JUndefined)
      else options)"

definition addEventListener ::
    "env \<Rightarrow> jsval \<Rightarrow> jsval \<Rightarrow> jsval \<Rightarrow> manager \<Rightarrow> completion \<times> manager" where
  "addEventListener e type listener options m =
     processItem e
       (Item (JObj [(''on'', type), (''handler'', listener),
                    (''scope'', option_field options ''scope''),
                    (''path'', option_field options ''path'')]) None) m"

definition removeEventListener ::
    "env \<Rightarrow> jsval \<Rightarrow> jsval \<Rightarrow> manager \<Rightarrow> completion \<times> manager" where
  "removeEventListener e type listener m =
     processItem e (Item (JObj [(''off'', type), (''handler'', listener)]) None) m"

section \<open>Notions used to state the properties\<close>

text \<open>
  An argument of \<^verbatim>\<open>push\<close> is retained when it is classified as Data or Event. The calls
  of Function commands among the recorded effects, and the functions among a list of
  arguments, in order.
\<close>

definition retained :: "jsval \<Rightarrow> bool" where
  "retained a = (classify a = DATA \<or> classify a = EVENT)"

fun is_function_call :: "effect \<Rightarrow> bool" where
  "is_function_call (FunctionCall f this args) = True"
| "is_function_call x = False"

fun function_args :: "jsval list \<Rightarrow> nat list" where
  "function_args [] = []"
| "function_args (JFun f # as) = f # function_args as"
| "function_args (a # as) = function_args as"

text \<open>A value that holds no \<open>null\<close> at any depth.\<close>

fun null_free :: "jsval \<Rightarrow> bool" where
  "null_free JNull = False"
| "null_free (JArr xs) = list_all null_free xs"
| "null_free (JObj ps) = list_all (\<lambda>p. null_free (snd p)) ps"
| "null_free v = True"

text \<open>
  The arguments a call of \<^verbatim>\<open>push\<close> reaches: all of them up to and including the first
  function that throws.
\<close>

fun reached :: "env \<Rightarrow> jsval list \<Rightarrow> jsval list" where
  "reached e [] = []"
| "reached e (JFun f # as) = (if throws e f then [JFun f] else JFun f # reached e as)"
| "reached e (a # as) = a # reached e as"

text \<open>
  An argument whose dispatch merges into the state: a Data command, or an Event command
  that carries data.
\<close>

definition merging :: "jsval \<Rightarrow> bool" where
  "merging a = (classify a = DATA \<or> (classify a = EVENT \<and> payload_data a \<noteq> None))"

text \<open>
  What \<^verbatim>\<open>push\<close> does to the outside for one argument, in a manager with the given registry
  and array: a Data or Event command has the handler of every matching registered
  listener called, a function is called, any other argument does nothing.
\<close>

definition arg_effects :: "env \<Rightarrow> manager \<Rightarrow> jsval \<Rightarrow> effect list" where
  "arg_effects e m a =
     (if retained a then concat (map (\<lambda>l. handler_effects e l (Item a None)) (listeners m))
      else case a of
        JFun f \<Rightarrow> [FunctionCall f (JArr (dataLayer m)) [JArr (dataLayer m)]]
      | v \<Rightarrow> [])"

text \<open>A registered listener for the event \<open>click\<close>, and an Event command with data.\<close>

definition click_listener :: listener where
  "click_listener =
     \<lparr> event = JStr ''click'', path = JUndefined, scope = SCOPE_ALL, handler = JFun 7 \<rparr>"

definition click_event :: jsval where
  "click_event = JObj [(''event'', JStr ''click''), (''data'', JObj [(''a'', JNum 1)])]"

text \<open>
  A run in which no callback throws and every listener matches every command, one in which
  the callback \<open>0\<close> throws, and the manager of an empty data layer.
\<close>

definition quiet_env :: env where
  "quiet_env = \<lparr> throws = (\<lambda>f. False), matches = (\<lambda>l it. True) \<rparr>"

definition throwing_env :: env where
  "throwing_env = \<lparr> throws = (\<lambda>f. f = 0), matches = (\<lambda>l it. True) \<rparr>"

definition empty_manager :: manager where
  "empty_manager =
     \<lparr> dataLayer = [], state = [], previousStateCopy = [], listeners = [], effects = [] \<rparr>"

text \<open>A listener command for the past of the event \<open>click\<close>.\<close>

definition past_listener :: jsval where
  "past_listener = JObj [(''on'', JStr ''click''), (''handler'', JFun 7), (''scope'', JStr ''past'')]"

section \<open>Lemmas about the registry and the dispatch of one argument\<close>

lemma foldl_triggerListener_effects:
  "effects (foldl (\<lambda>acc l. triggerListener e l it acc) m ls) =
     effects m @ concat (map (\<lambda>l. handler_effects e l it) ls)"
  by (induction ls arbitrary: m) (simp_all add: triggerListener_def)

lemma triggerListeners_effects:
  "effects (triggerListeners e it m) =
     effects m @ concat (map (\<lambda>l. handler_effects e l it) (listeners m))"
  by (simp add: triggerListeners_def foldl_triggerListener_effects)

lemma replay_eq:
  "replay e l its m = m\<lparr> effects := effects m @ concat (map (handler_effects e l) its) \<rparr>"
  unfolding replay_def by (induction its arbitrary: m) (simp_all add: triggerListener_def)

lemma no_function_call_handler_effects [simp]:
  "filter is_function_call (handler_effects e l it) = []"
  by (simp add: handler_effects_def)

lemma no_function_call_concat [simp]:
  "filter is_function_call (concat (map (\<lambda>l. handler_effects e l it) ls)) = []"
  by (induction ls) simp_all

lemma classify_FCTN: "classify a = FCTN \<longleftrightarrow> (\<exists>f. a = JFun f)"
  by (cases a) (auto split: if_splits)

lemma retained_truthy: "retained a \<Longrightarrow> truthy a"
  by (cases a) (auto simp: retained_def split: if_splits)

lemma push_arg_retained:
  "retained a \<Longrightarrow>
   \<exists>m1. push_arg e a m = (Returned JUndefined, False, m1) \<and>
     dataLayer m1 = dataLayer m \<and> listeners m1 = listeners m \<and>
     filter is_function_call (effects m1) = filter is_function_call (effects m)"
  by (auto simp: retained_def push_arg_def Item_def processItem_def process_data_def
      process_event_def Let_def triggerListeners_effects split: option.splits)

lemma push_arg_function:
  "push_arg e (JFun f) m =
     (if throws e f then Raised (Thrown f) else Returned JUndefined, True,
      m\<lparr> effects := effects m @ [FunctionCall f (JArr (dataLayer m)) [JArr (dataLayer m)]] \<rparr>)"
  by (simp add: push_arg_def Item_def processItem_def process_fctn_def Let_def)

lemma push_arg_dropped:
  "\<not> retained a \<Longrightarrow> classify a \<noteq> FCTN \<Longrightarrow> push_arg e a m = (Returned JUndefined, True, m)"
  by (cases "classify a") (simp_all add: retained_def push_arg_def Item_def Let_def)

lemma push_args_returned:
  "fst (push_args e as m) = Returned r \<Longrightarrow>
   fst (snd (push_args e as m)) = map (\<lambda>a. if retained a then a else JUndefined) as \<and>
   dataLayer (snd (snd (push_args e as m))) = dataLayer m \<and>
   listeners (snd (snd (push_args e as m))) = listeners m \<and>
   filter is_function_call (effects (snd (snd (push_args e as m)))) =
     filter is_function_call (effects m) @
     map (\<lambda>f. FunctionCall f (JArr (dataLayer m)) [JArr (dataLayer m)]) (function_args as)"
proof (induction as arbitrary: m)
  case Nil
  then show ?case by simp
next
  case (Cons a as)
  consider (keep) "retained a" | (fn) f where "a = JFun f" | (dropped) "\<not> retained a" "classify a \<noteq> FCTN"
    using classify_FCTN by blast
  then show ?case
  proof cases
    case keep
    from push_arg_retained [OF keep, of e m] obtain m1 where
      m1: "push_arg e a m = (Returned JUndefined, False, m1)" "dataLayer m1 = dataLayer m"
        "listeners m1 = listeners m"
        "filter is_function_call (effects m1) = filter is_function_call (effects m)"
      by blast
    have fa: "function_args (a # as) = function_args as"
      using keep by (cases a) (auto simp: retained_def)
    from Cons.prems m1 have "fst (push_args e as m1) = Returned r"
      by (simp split: prod.splits)
    from Cons.IH [OF this] m1 keep fa show ?thesis
      by (auto split: prod.splits)
  next
    case fn
    let ?m1 = "m\<lparr> effects := effects m @ [FunctionCall f (JArr (dataLayer m)) [JArr (dataLayer m)]] \<rparr>"
    from Cons.prems fn have nt: "\<not> throws e f"
      by (auto simp: push_arg_function split: if_splits)
    with Cons.prems fn have "fst (push_args e as ?m1) = Returned r"
      by (simp add: push_arg_function split: prod.splits)
    from Cons.IH [OF this] nt fn show ?thesis
      by (auto simp: push_arg_function retained_def split: prod.splits)
  next
    case dropped
    from Cons.prems dropped have "fst (push_args e as m) = Returned r"
      by (simp add: push_arg_dropped split: prod.splits)
    moreover have "function_args (a # as) = function_args as"
      using dropped by (cases a) auto
    ultimately show ?thesis
      using Cons.IH [of m] dropped by (auto simp: push_arg_dropped split: prod.splits)
  qed
qed

section \<open>Lemmas about sequences of Data commands\<close>

lemma classify_DATA_Item:
  "classify p = DATA \<Longrightarrow> valid (Item p i) \<and> itype (Item p i) = DATA"
  by (simp add: Item_def)

lemma push_arg_DATA:
  "classify p = DATA \<Longrightarrow>
   push_arg e p m = (Returned JUndefined, False,
     triggerListeners e (Item p None) (updateState (Item p None) m))"
  by (simp add: push_arg_def Item_def processItem_def process_data_def Let_def)

lemma push_args_DATA:
  "\<forall>p \<in> set ps. classify p = DATA \<Longrightarrow>
   fst (push_args e ps m) = Returned JUndefined \<and>
   fst (snd (push_args e ps m)) = ps \<and>
   state (snd (snd (push_args e ps m))) =
     foldl customMerge (state m) (map (\<lambda>p. source_of (Item p None)) ps) \<and>
   previousStateCopy (snd (snd (push_args e ps m))) =
     (if ps = [] then previousStateCopy m
      else foldl customMerge (state m) (map (\<lambda>p. source_of (Item p None)) (butlast ps)))"
proof (induction ps arbitrary: m)
  case Nil
  then show ?case by simp
next
  case (Cons p ps)
  let ?m1 = "triggerListeners e (Item p None) (updateState (Item p None) m)"
  from Cons.prems have p: "classify p = DATA" and ps: "\<forall>p \<in> set ps. classify p = DATA"
    by simp_all
  have step: "push_args e (p # ps) m =
      (case push_args e ps ?m1 of (c, filtered, m2) \<Rightarrow> (c, p # filtered, m2))"
    by (simp add: push_arg_DATA [OF p])
  from Cons.IH [OF ps, of ?m1] show ?case
    by (cases "push_args e ps ?m1") (auto simp: step simp del: push_args.simps)
qed

lemma processItems_DATA:
  "\<forall>p \<in> set (drop i (dataLayer m)). classify p = DATA \<Longrightarrow>
   fst (processItems e i m) = Returned JUndefined \<and>
   dataLayer (snd (processItems e i m)) = dataLayer m \<and>
   state (snd (processItems e i m)) =
     foldl customMerge (state m) (map (\<lambda>p. source_of (Item p None)) (drop i (dataLayer m))) \<and>
   previousStateCopy (snd (processItems e i m)) =
     (if drop i (dataLayer m) = [] then previousStateCopy m
      else foldl customMerge (state m)
             (map (\<lambda>p. source_of (Item p None)) (butlast (drop i (dataLayer m)))))"
proof (induction "length (dataLayer m) - i" arbitrary: i m)
  case 0
  then show ?case by (simp add: processItems.simps)
next
  case (Suc n)
  then have lt: "i < length (dataLayer m)" by simp
  let ?p = "dataLayer m ! i"
  let ?m1 = "triggerListeners e (Item ?p (Some i)) (updateState (Item ?p (Some i)) m)"
  have d: "drop i (dataLayer m) = ?p # drop (Suc i) (dataLayer m)"
    using lt by (simp add: Cons_nth_drop_Suc)
  with Suc.prems have p: "classify ?p = DATA"
    and rest: "\<forall>p \<in> set (drop (Suc i) (dataLayer ?m1)). classify p = DATA"
    by simp_all
  have step: "processItems e i m = processItems e (Suc i) ?m1"
    using lt p
    by (subst processItems.simps)
      (simp add: Item_def processItem_def process_data_def removable_def Let_def)
  have src: "source_of (Item ?p (Some i)) = source_of (Item ?p None)"
    by (simp add: source_of_def Item_def)
  have n: "n = length (dataLayer ?m1) - Suc i"
    using Suc.hyps(2) by simp
  from Suc.hyps(1) [OF n rest] show ?case
    by (simp add: step d src)
qed

section \<open>Lemmas about items, listeners and Function commands\<close>

lemma Item_fields [simp]:
  "config (Item c i) = c"
  "itype (Item c i) = classify c"
  "valid (Item c i) = (classify c \<noteq> INVALID)"
  "index (Item c i) = i"
  by (simp_all add: Item_def)

lemma not_retained_iff:
  "\<not> retained a \<longleftrightarrow> classify a \<in> {LISTENER_ON, LISTENER_OFF, FCTN, INVALID}"
  by (cases "classify a") (simp_all add: retained_def)

lemma processItem_function:
  "processItem e (Item (JFun f) i) m =
     (if throws e f then Raised (Thrown f) else Returned JUndefined,
      m\<lparr> effects := effects m @ [FunctionCall f (JArr (dataLayer m)) [JArr (dataLayer m)]] \<rparr>)"
  by (simp add: processItem_def process_fctn_def)

text \<open>
  A listener of the past added with \<^verbatim>\<open>addEventListener\<close> has no index: it is replayed on
  every entry of the array.
\<close>

lemma addEventListener_past_replay:
  assumes "isString type" and "isFunction listener"
    and "option_field options ''scope'' = JStr ''past''"
  shows "addEventListener e type listener options m =
     (Returned JUndefined,
      m\<lparr> effects := effects m @
          concat (map (\<lambda>itemConfig.
              handler_effects e
                (Listener (Item (JObj [(''on'', type), (''handler'', listener),
                    (''scope'', option_field options ''scope''),
                    (''path'', option_field options ''path'')]) None))
                (Item itemConfig None))
            (dataLayer m)) \<rparr>)"
proof -
  let ?it = "Item (JObj [(''on'', type), (''handler'', listener),
                    (''scope'', option_field options ''scope''),
                    (''path'', option_field options ''path'')]) None"
  have c: "classify (config ?it) = LISTENER_ON"
    using assms(1,2) by simp
  have s: "scope (Listener ?it) = SCOPE_PAST"
    using assms(3) by (simp add: Listener_def parse_scope_def)
  have g: "getBefore ?it m = map (\<lambda>itemConfig. Item itemConfig None) (dataLayer m)"
    by (simp add: getBefore_def Let_def)
  show ?thesis
    using c s g
    by (simp add: addEventListener_def processItem_def process_listenerOn_def Let_def
        replay_eq comp_def)
qed

section \<open>Lemmas about exceptions of Function commands\<close>

lemma push_args_no_throw:
  "\<forall>f. JFun f \<in> set as \<longrightarrow> \<not> throws e f \<Longrightarrow> \<exists>r. fst (push_args e as m) = Returned r"
proof (induction as arbitrary: m)
  case Nil
  then show ?case by simp
next
  case (Cons a as)
  then have ih: "\<And>m. \<exists>r. fst (push_args e as m) = Returned r" by simp
  consider (keep) "retained a" | (fn) f where "a = JFun f" | (dropped) "\<not> retained a" "classify a \<noteq> FCTN"
    using classify_FCTN by blast
  then show ?case
  proof cases
    case keep
    from push_arg_retained [OF keep, of e m] obtain m1 where
      m1: "push_arg e a m = (Returned JUndefined, False, m1)"
      by blast
    with ih [of m1] show ?thesis by (auto split: prod.splits)
  next
    case fn
    with Cons.prems have "\<not> throws e f" by simp
    with fn ih [of "m\<lparr> effects := effects m @ [FunctionCall f (JArr (dataLayer m)) [JArr (dataLayer m)]] \<rparr>"]
    show ?thesis
      by (auto simp: push_arg_function split: prod.splits)
  next
    case dropped
    with ih [of m] show ?thesis
      by (auto simp: push_arg_dropped split: prod.splits)
  qed
qed

lemma push_args_throw:
  "\<forall>g. JFun g \<in> set pre \<longrightarrow> \<not> throws e g \<Longrightarrow> throws e f \<Longrightarrow>
   fst (push_args e (pre @ JFun f # post) m) = Raised (Thrown f) \<and>
   snd (snd (push_args e (pre @ JFun f # post) m)) =
     (snd (snd (push_args e pre m)))\<lparr> effects := effects (snd (snd (push_args e pre m))) @
        [FunctionCall f (JArr (dataLayer m)) [JArr (dataLayer m)]] \<rparr>"
proof (induction pre arbitrary: m)
  case Nil
  then show ?case by (simp add: push_arg_function)
next
  case (Cons a pre)
  then have ih: "\<And>m. fst (push_args e (pre @ JFun f # post) m) = Raised (Thrown f) \<and>
   snd (snd (push_args e (pre @ JFun f # post) m)) =
     (snd (snd (push_args e pre m)))\<lparr> effects := effects (snd (snd (push_args e pre m))) @
        [FunctionCall f (JArr (dataLayer m)) [JArr (dataLayer m)]] \<rparr>"
    by simp
  consider (keep) "retained a" | (fn) g where "a = JFun g" | (dropped) "\<not> retained a" "classify a \<noteq> FCTN"
    using classify_FCTN by blast
  then show ?case
  proof cases
    case keep
    from push_arg_retained [OF keep, of e m] obtain m1 where
      m1: "push_arg e a m = (Returned JUndefined, False, m1)" "dataLayer m1 = dataLayer m"
      by blast
    with ih [of m1] show ?thesis by (auto split: prod.splits)
  next
    case fn
    with Cons.prems have "\<not> throws e g" by simp
    with fn ih [of "m\<lparr> effects := effects m @ [FunctionCall g (JArr (dataLayer m)) [JArr (dataLayer m)]] \<rparr>"]
    show ?thesis
      by (auto simp: push_arg_function split: prod.splits)
  next
    case dropped
    with ih [of m] show ?thesis
      by (auto simp: push_arg_dropped split: prod.splits)
  qed
qed

section \<open>Lemmas about what a call of push does\<close>

lemma reached_all:
  "\<forall>f. JFun f \<in> set as \<longrightarrow> \<not> throws e f \<Longrightarrow> reached e as = as"
  by (induction e as rule: reached.induct) auto

lemma arg_effects_cong:
  "listeners m1 = listeners m \<Longrightarrow> dataLayer m1 = dataLayer m \<Longrightarrow>
   arg_effects e m1 = arg_effects e m"
  by (rule ext) (simp add: arg_effects_def split: jsval.splits)

lemma push_arg_merging:
  "merging a \<Longrightarrow>
   push_arg e a m = (Returned JUndefined, False,
     triggerListeners e (Item a None) (updateState (Item a None) m))"
  by (cases a)
    (auto simp: merging_def push_arg_def Item_def processItem_def process_data_def
      process_event_def Let_def split: if_splits jsval.splits)

lemma push_arg_event_only:
  "retained a \<Longrightarrow> \<not> merging a \<Longrightarrow>
   push_arg e a m = (Returned JUndefined, False, triggerListeners e (Item a None) m)"
  by (auto simp: retained_def merging_def push_arg_def Item_def processItem_def
      process_event_def Let_def)

lemma merging_retained: "merging a \<Longrightarrow> retained a"
  by (auto simp: merging_def retained_def)

lemma reached_Cons_not_fun:
  "classify a \<noteq> FCTN \<Longrightarrow> reached e (a # as) = a # reached e as"
  by (cases a) simp_all

lemma push_args_run:
  "dataLayer (snd (snd (push_args e as m))) = dataLayer m \<and>
   listeners (snd (snd (push_args e as m))) = listeners m \<and>
   state (snd (snd (push_args e as m))) =
     foldl customMerge (state m)
       (map (\<lambda>a. source_of (Item a None)) (filter merging (reached e as))) \<and>
   previousStateCopy (snd (snd (push_args e as m))) =
     (if filter merging (reached e as) = [] then previousStateCopy m
      else foldl customMerge (state m)
             (map (\<lambda>a. source_of (Item a None)) (butlast (filter merging (reached e as))))) \<and>
   effects (snd (snd (push_args e as m))) =
     effects m @ concat (map (arg_effects e m) (reached e as))"
proof (induction as arbitrary: m)
  case Nil
  then show ?case by simp
next
  case (Cons a as)
  consider (merge) "merging a" | (event) "retained a" "\<not> merging a"
    | (fn) f where "a = JFun f" | (dropped) "\<not> retained a" "classify a \<noteq> FCTN"
    using classify_FCTN merging_retained by blast
  then show ?case
  proof cases
    case merge
    let ?m1 = "triggerListeners e (Item a None) (updateState (Item a None) m)"
    have nf: "classify a \<noteq> FCTN" using merge by (auto simp: merging_def)
    have ae: "arg_effects e ?m1 = arg_effects e m"
      by (rule arg_effects_cong) simp_all
    have eff: "effects ?m1 = effects m @ arg_effects e m a"
      using merge by (simp add: triggerListeners_effects arg_effects_def merging_retained)
    from Cons.IH [of ?m1] merge show ?thesis
      by (cases "push_args e as ?m1")
        (auto simp: push_arg_merging reached_Cons_not_fun [OF nf] ae eff
          simp del: push_args.simps(1))
  next
    case event
    let ?m1 = "triggerListeners e (Item a None) m"
    have nf: "classify a \<noteq> FCTN" using event by (auto simp: retained_def)
    have ae: "arg_effects e ?m1 = arg_effects e m"
      by (rule arg_effects_cong) simp_all
    have eff: "effects ?m1 = effects m @ arg_effects e m a"
      using event by (simp add: triggerListeners_effects arg_effects_def)
    from Cons.IH [of ?m1] event show ?thesis
      by (cases "push_args e as ?m1")
        (auto simp: push_arg_event_only reached_Cons_not_fun [OF nf] ae eff)
  next
    case fn
    let ?m1 = "m\<lparr> effects := effects m @ [FunctionCall f (JArr (dataLayer m)) [JArr (dataLayer m)]] \<rparr>"
    have ae: "arg_effects e ?m1 = arg_effects e m"
      by (rule arg_effects_cong) simp_all
    have nm: "\<not> merging a" "arg_effects e m a = [FunctionCall f (JArr (dataLayer m)) [JArr (dataLayer m)]]"
      using fn by (simp_all add: merging_def arg_effects_def retained_def)
    from Cons.IH [of ?m1] fn nm show ?thesis
      by (cases "push_args e as ?m1")
        (auto simp: push_arg_function ae)
  next
    case dropped
    have nm: "\<not> merging a" "arg_effects e m a = []"
      using dropped merging_retained classify_FCTN
      by (auto simp: arg_effects_def split: jsval.splits)
    from Cons.IH [of m] dropped nm show ?thesis
      by (cases "push_args e as m")
        (auto simp: push_arg_dropped reached_Cons_not_fun)
  qed
qed


lemma push_args_quiet:
  "\<forall>f. JFun f \<in> set as \<longrightarrow> \<not> throws e f \<Longrightarrow>
   fst (push_args e as m) = Returned JUndefined \<and>
   fst (snd (push_args e as m)) = map (\<lambda>a. if retained a then a else JUndefined) as"
proof -
  assume h: "\<forall>f. JFun f \<in> set as \<longrightarrow> \<not> throws e f"
  have "\<exists>r. fst (push_args e as m) = Returned r \<Longrightarrow> fst (push_args e as m) = Returned JUndefined"
  proof (induction as arbitrary: m)
    case Nil
    then show ?case by simp
  next
    case (Cons a as)
    from Cons.prems obtain r d m1 where pa: "push_arg e a m = (Returned r, d, m1)"
      by (cases "push_arg e a m"; cases "fst (push_arg e a m)") (auto split: prod.splits)
    with Cons.prems have "\<exists>r. fst (push_args e as m1) = Returned r"
      by (auto split: prod.splits)
    from Cons.IH [OF this] pa show ?case
      by (auto split: prod.splits)
  qed
  with push_args_no_throw [OF h, of m] have 1: "fst (push_args e as m) = Returned JUndefined"
    by blast
  from push_args_returned [OF 1] 1 show ?thesis by simp
qed

lemma push_args_raises:
  "\<exists>f. JFun f \<in> set as \<and> throws e f \<Longrightarrow> \<exists>x. fst (push_args e as m) = Raised x"
proof (induction as arbitrary: m)
  case Nil
  then show ?case by simp
next
  case (Cons a as)
  show ?case
  proof (cases "\<exists>r. fst (push_arg e a m) = Returned r")
    case False
    then show ?thesis
      by (cases "push_arg e a m"; cases "fst (push_arg e a m)") (auto split: prod.splits)
  next
    case True
    then obtain r d m1 where pa: "push_arg e a m = (Returned r, d, m1)"
      by (cases "push_arg e a m") auto
    have "\<exists>f. JFun f \<in> set as \<and> throws e f"
    proof -
      from Cons.prems obtain f where f: "JFun f \<in> set (a # as)" "throws e f" by blast
      show ?thesis
      proof (cases "a = JFun f")
        case True
        with pa f(2) show ?thesis by (simp add: push_arg_function)
      next
        case False
        with f show ?thesis by auto
      qed
    qed
    from Cons.IH [OF this, of m1] pa show ?thesis
      by (auto split: prod.splits)
  qed
qed

lemma function_calls_arg_effects:
  "filter is_function_call (concat (map (arg_effects e m) as)) =
     map (\<lambda>f. FunctionCall f (JArr (dataLayer m)) [JArr (dataLayer m)]) (function_args as)"
proof (induction as)
  case Nil
  then show ?case by simp
next
  case (Cons a as)
  then show ?case
    by (cases a) (auto simp: arg_effects_def retained_def)
qed

lemma push_run:
  "listeners (snd (push e as m)) = listeners m \<and>
   state (snd (push e as m)) = state (snd (snd (push_args e as m))) \<and>
   previousStateCopy (snd (push e as m)) = previousStateCopy (snd (snd (push_args e as m))) \<and>
   effects (snd (push e as m)) = effects (snd (snd (push_args e as m)))"
  using push_args_run [of e as m]
  by (cases "push_args e as m"; cases "fst (push_args e as m)") (auto simp: push_def)

section \<open>Lemmas about the merge\<close>

lemma get_prop_set_prop [simp]:
  "get_prop (set_prop ps k v) k' = (if k = k' then v else get_prop ps k')"
  by (induction ps) auto

lemma keys_set_prop:
  "map fst (set_prop ps k v) = (if k \<in> fst ` set ps then map fst ps else map fst ps @ [k])"
  by (induction ps) force+

lemma distinct_set_prop [simp]:
  "distinct (map fst ps) \<Longrightarrow> distinct (map fst (set_prop ps k v))"
  by (simp add: keys_set_prop)

lemma get_prop_foldl_other:
  "k \<notin> fst ` set src \<Longrightarrow>
   get_prop (foldl (\<lambda>acc (k, s). set_prop acc k (g (get_prop acc k) s)) acc src) k = get_prop acc k"
  by (induction src arbitrary: acc) auto

lemma get_prop_foldl:
  "distinct (map fst src) \<Longrightarrow> (k, v) \<in> set src \<Longrightarrow>
   get_prop (foldl (\<lambda>acc (k, s). set_prop acc k (g (get_prop acc k) s)) acc src) k =
     g (get_prop acc k) v"
proof (induction src arbitrary: acc)
  case Nil
  then show ?case by simp
next
  case (Cons p src)
  obtain k' v' where p: "p = (k', v')" by (cases p)
  show ?case
  proof (cases "k' = k")
    case True
    with Cons.prems p have "v' = v" "k \<notin> fst ` set src"
      by (auto simp: image_iff)
    with True p show ?thesis
      by (simp add: get_prop_foldl_other)
  next
    case False
    with Cons.prems p have "(k, v) \<in> set src" "distinct (map fst src)" by auto
    from Cons.IH [OF this(2,1)] False p show ?thesis by simp
  qed
qed

lemma distinct_foldl_set_prop:
  "distinct (map fst acc) \<Longrightarrow>
   distinct (map fst (foldl (\<lambda>acc (k, s). set_prop acc k (g (get_prop acc k) s)) acc src))"
  by (induction src arbitrary: acc) auto

lemma get_prop_mergeWith:
  "distinct (map fst source) \<Longrightarrow> (k, v) \<in> set source \<Longrightarrow>
   get_prop (mergeWith object source) k = mergeValue (get_prop object k) v"
  unfolding mergeWith_def by (rule get_prop_foldl)

lemma distinct_mergeWith:
  "distinct (map fst object) \<Longrightarrow> distinct (map fst (mergeWith object source))"
  unfolding mergeWith_def by (rule distinct_foldl_set_prop)

lemma omitDeep_eq:
  "omitDeep ps p = map (\<lambda>(k, v). (k, omittingCloneDeep p v)) (filter (\<lambda>(k, v). \<not> p v) ps)"
  by (simp add: omitDeep_def)

lemma get_prop_absent: "k \<notin> fst ` set ps \<Longrightarrow> get_prop ps k = JUndefined"
  by (induction ps) auto

lemma get_prop_present:
  "distinct (map fst ps) \<Longrightarrow> (k, v) \<in> set ps \<Longrightarrow> get_prop ps k = v"
  by (induction ps) (auto simp: image_iff)

lemma get_prop_assign:
  "distinct (map fst src) \<Longrightarrow>
   get_prop (assign acc src) k = (if k \<in> fst ` set src then get_prop src k else get_prop acc k)"
proof (cases "k \<in> fst ` set src")
  case True
  then obtain v where v: "(k, v) \<in> set src" by auto
  assume d: "distinct (map fst src)"
  from get_prop_foldl [OF d v, of "\<lambda>t s. s" acc] get_prop_present [OF d v] True
  show ?thesis by (simp add: assign_def)
next
  case False
  from get_prop_foldl_other [OF False, of "\<lambda>t s. s" acc] False
  show ?thesis by (simp add: assign_def)
qed

lemma get_prop_customMerge:
  assumes "distinct (map fst object)"
  shows "get_prop (customMerge object source) k =
     (let v = get_prop (mergeWith object source) k
      in if v = JNull then JNull else omittingCloneDeep isNull v)"
proof -
  let ?merged = "mergeWith object source"
  let ?clone = "omitDeep ?merged isNull"
  have dm: "distinct (map fst ?merged)"
    using assms by (rule distinct_mergeWith)
  have keys: "map fst ?clone = map fst (filter (\<lambda>(k, v). \<not> isNull v) ?merged)"
    by (simp add: omitDeep_eq comp_def case_prod_unfold)
  have dc: "distinct (map fst ?clone)"
    unfolding keys using dm by (simp add: distinct_map_filter)
  have cm: "customMerge object source = assign ?merged ?clone"
    by (simp add: customMerge_def Let_def)
  show ?thesis
  proof (cases "k \<in> fst ` set ?merged")
    case False
    then have "k \<notin> fst ` set ?clone"
      by (force simp: omitDeep_eq image_iff)
    with False show ?thesis
      by (simp add: cm get_prop_assign [OF dc] get_prop_absent Let_def)
  next
    case True
    then obtain v where v: "(k, v) \<in> set ?merged" by auto
    with dm have gv: "get_prop ?merged k = v" by (simp add: get_prop_present)
    show ?thesis
    proof (cases "v = JNull")
      case True
      have "k \<notin> fst ` set ?clone"
      proof
        assume "k \<in> fst ` set ?clone"
        then obtain w where "(k, w) \<in> set ?merged" "\<not> isNull w"
          by (auto simp: omitDeep_eq)
        with dm v have "w = v" "\<not> isNull w"
          by (auto dest: get_prop_present)
        with True show False by (simp add: isNull_def)
      qed
      with True gv show ?thesis
        by (simp add: cm get_prop_assign [OF dc] Let_def)
    next
      case False
      with v have "(k, omittingCloneDeep isNull v) \<in> set ?clone"
        by (force simp: omitDeep_eq isNull_def)
      with dc have "get_prop ?clone k = omittingCloneDeep isNull v" "k \<in> fst ` set ?clone"
        by (simp add: get_prop_present, force)
      with False gv show ?thesis
        by (simp add: cm get_prop_assign [OF dc] Let_def)
    qed
  qed
qed

lemma foldl_array_merge:
  "foldl (\<lambda>acc (i, s). set_index acc i (g (get_index acc i) s)) (pre @ ts)
     (enumerate (length pre) ss) =
   pre @ map (\<lambda>(t, s). g t s) (zip (ts @ replicate (length ss - length ts) JUndefined) ss) @
     drop (length ss) ts"
proof (induction ss arbitrary: pre ts)
  case Nil
  then show ?case by simp
next
  case (Cons s ss)
  show ?case
  proof (cases ts)
    case Nil
    have "set_index pre (length pre) (g (get_index pre (length pre)) s) = (pre @ [g JUndefined s]) @ []"
      by (simp add: set_index_def get_index_def)
    with Cons.IH [of "pre @ [g JUndefined s]" "[]"] Nil show ?thesis
      by (simp add: replicate_app_Cons_same)
  next
    case (Cons t ts')
    have "set_index (pre @ t # ts') (length pre) (g (get_index (pre @ t # ts') (length pre)) s) =
        (pre @ [g t s]) @ ts'"
      by (simp add: set_index_def get_index_def)
    with Cons.IH [of "pre @ [g t s]" ts'] Cons show ?thesis
      by simp
  qed
qed

lemma mergeValue_arrays:
  "mergeValue (JArr ts) (JArr ss) =
     JArr (map (\<lambda>(t, s). mergeValue t s)
             (zip (ts @ replicate (length ss - length ts) JUndefined) ss) @
           drop (length ss) ts)"
  using foldl_array_merge [of mergeValue "[]" ts ss] by simp

lemma mergeValue_primitive:
  "\<not> isObject s \<Longrightarrow> mergeValue t s = (if s = JUndefined then JNull else s)"
  by (cases s) simp_all

lemma omittingCloneDeep_primitive:
  "\<not> isObject s \<Longrightarrow> omittingCloneDeep p s = s"
  by (cases s) simp_all

lemma primitive_elements_merge:
  "\<forall>s \<in> set ss. \<not> isObject s \<Longrightarrow> length ss \<le> length ts \<Longrightarrow>
   map (omittingCloneDeep isNull) (reject (map (\<lambda>(t, s). mergeValue t s) (zip ts ss)) isNull) =
     filter (\<lambda>s. s \<noteq> JNull \<and> s \<noteq> JUndefined) ss"
proof (induction ss arbitrary: ts)
  case Nil
  then show ?case by (simp add: reject_def)
next
  case (Cons s ss)
  then obtain t ts' where ts: "ts = t # ts'" by (cases ts) auto
  with Cons.prems have "length ss \<le> length ts'" "\<forall>s \<in> set ss. \<not> isObject s" "\<not> isObject s"
    by simp_all
  with Cons.IH [of ts'] ts show ?case
    by (auto simp: reject_def isNull_def mergeValue_primitive omittingCloneDeep_primitive)
qed

lemma top_level_null_stays:
  assumes "distinct (map fst object)" and "distinct (map fst source)"
    and "(k, JNull) \<in> set source"
  shows "get_prop (customMerge object source) k = JNull"
  using get_prop_customMerge [OF assms(1), of source k] get_prop_mergeWith [OF assms(2,3), of object]
  by (simp add: Let_def)

text \<open>
  After the merge a value of the state is a \<open>null\<close> at the top level or holds no \<open>null\<close>.
\<close>

lemma omittingCloneDeep_null_free:
  "v \<noteq> JNull \<Longrightarrow> null_free (omittingCloneDeep isNull v)"
proof (induction isNull v rule: omittingCloneDeep.induct)
  case (1 xs)
  then show ?case
    by (auto simp: list_all_iff reject_def isNull_def)
next
  case (2 ps)
  then show ?case
    by (auto simp: list_all_iff isNull_def)
qed simp_all

lemma customMerge_values:
  assumes "distinct (map fst object)"
  shows "list_all (\<lambda>p. snd p = JNull \<or> null_free (snd p)) (customMerge object source)"
proof -
  have d: "distinct (map fst (customMerge object source))"
    using assms
    by (simp add: customMerge_def Let_def assign_def distinct_mergeWith
        distinct_foldl_set_prop [where g = "\<lambda>t s. s"])
  have "snd p = JNull \<or> null_free (snd p)" if p: "p \<in> set (customMerge object source)" for p
  proof -
    obtain k v where kv: "p = (k, v)" by (cases p)
    with p d have "get_prop (customMerge object source) k = v"
      by (simp add: get_prop_present)
    with get_prop_customMerge [OF assms, of source k] show ?thesis
      by (auto simp: kv Let_def omittingCloneDeep_null_free split: if_splits)
  qed
  then show ?thesis by (simp add: list_all_iff)
qed

section \<open>The claims\<close>

subsection \<open>C1: Data commands fold the merge\<close>

text \<open>
  C1. For every sequence of Data commands processed by the dispatcher, whether as the
  arguments of \<^verbatim>\<open>push\<close> or as the entries of the array present at construction, the state
  afterwards is the left fold of \<^verbatim>\<open>_customMerge\<close> over their data in order, and the
  previous state is the state as it stood before the last merge, that is the fold over
  all but the last command.
\<close>

theorem data_commands_fold_state:
  assumes "\<forall>p \<in> set payloads. classify p = DATA"
  shows "state (snd (push e payloads m)) =
           foldl customMerge (state m) (map (\<lambda>p. source_of (Item p None)) payloads) \<and>
         (payloads \<noteq> [] \<longrightarrow>
           previousStateCopy (snd (push e payloads m)) =
             foldl customMerge (state m)
               (map (\<lambda>p. source_of (Item p None)) (butlast payloads))) \<and>
         state (snd (initialize e (JArr payloads))) =
           foldl customMerge [] (map (\<lambda>p. source_of (Item p None)) payloads) \<and>
         (payloads \<noteq> [] \<longrightarrow>
           previousStateCopy (snd (initialize e (JArr payloads))) =
             foldl customMerge []
               (map (\<lambda>p. source_of (Item p None)) (butlast payloads)))"
proof -
  from push_args_DATA [OF assms, of e m]
  have "state (snd (push e payloads m)) =
           foldl customMerge (state m) (map (\<lambda>p. source_of (Item p None)) payloads)"
    and "payloads \<noteq> [] \<longrightarrow>
           previousStateCopy (snd (push e payloads m)) =
             foldl customMerge (state m)
               (map (\<lambda>p. source_of (Item p None)) (butlast payloads))"
    by (cases "push_args e payloads m"; simp add: push_def)+
  moreover
  let ?m0 = "\<lparr> dataLayer = payloads, state = [], previousStateCopy = [],
               listeners = [], effects = [] \<rparr>"
  from assms have "\<forall>p \<in> set (drop 0 (dataLayer ?m0)). classify p = DATA"
    by simp
  from processItems_DATA [OF this, of e]
  have "state (snd (initialize e (JArr payloads))) =
           foldl customMerge [] (map (\<lambda>p. source_of (Item p None)) payloads)"
    and "payloads \<noteq> [] \<longrightarrow>
           previousStateCopy (snd (initialize e (JArr payloads))) =
             foldl customMerge []
               (map (\<lambda>p. source_of (Item p None)) (butlast payloads))"
    by (simp_all add: initialize_def)
  ultimately show ?thesis by blast
qed

theorem data_commands_fold_state_witness:
  "classify (JObj [(''data'', JObj [(''a'', JObj [(''b'', JNum 1), (''c'', JNum 2)])])]) = DATA \<and>
   classify (JObj [(''data'', JObj [(''a'', JObj [(''b'', JNull)])])]) = DATA \<and>
   state (snd (push quiet_env
     [JObj [(''data'', JObj [(''a'', JObj [(''b'', JNum 1), (''c'', JNum 2)])])],
      JObj [(''data'', JObj [(''a'', JObj [(''b'', JNull)])])]] empty_manager)) =
     [(''a'', JObj [(''c'', JNum 2)])] \<and>
   previousStateCopy (snd (push quiet_env
     [JObj [(''data'', JObj [(''a'', JObj [(''b'', JNum 1), (''c'', JNum 2)])])],
      JObj [(''data'', JObj [(''a'', JObj [(''b'', JNull)])])]] empty_manager)) =
     [(''a'', JObj [(''b'', JNum 1), (''c'', JNum 2)])]"
proof -
  let ?p1 = "JObj [(''data'', JObj [(''a'', JObj [(''b'', JNum 1), (''c'', JNum 2)])])]"
  let ?p2 = "JObj [(''data'', JObj [(''a'', JObj [(''b'', JNull)])])]"
  have h: "\<forall>p \<in> set [?p1, ?p2]. classify p = DATA"
    by simp
  have s: "foldl customMerge (state empty_manager)
      (map (\<lambda>p. source_of (Item p None)) [?p1, ?p2]) = [(''a'', JObj [(''c'', JNum 2)])]"
    by code_simp
  have p: "foldl customMerge (state empty_manager)
      (map (\<lambda>p. source_of (Item p None)) (butlast [?p1, ?p2])) =
      [(''a'', JObj [(''b'', JNum 1), (''c'', JNum 2)])]"
    by code_simp
  from data_commands_fold_state [OF h, of quiet_env empty_manager] s p h
  show ?thesis by simp
qed

subsection \<open>C2: nulls after the merge\<close>

text \<open>
  C2. The claim is that after \<^verbatim>\<open>_customMerge\<close> no value of the target is \<open>null\<close> at any
  depth, the top level included. The code removes the nulls from a deep copy and then
  assigns the copy to the target; \<^verbatim>\<open>assign\<close> only writes the keys the copy has, so a key
  set to \<open>null\<close> at the top level stays in the state with the value \<open>null\<close>
  (\<open>top_level_null_stays\<close>). Below the top level the key is removed as claimed
  (\<open>customMerge_values\<close>).
\<close>

theorem customMerge_keeps_top_level_null:
  "customMerge [(''a'', JNum 1)] [(''a'', JNull)] = [(''a'', JNull)] \<and>
   customMerge [] [(''a'', JNull)] = [(''a'', JNull)] \<and>
   customMerge [(''a'', JObj [(''b'', JNum 1), (''c'', JNum 2)])] [(''a'', JObj [(''b'', JNull)])] =
     [(''a'', JObj [(''c'', JNum 2)])]"
  by code_simp

subsection \<open>C3: arrays in the merge\<close>

text \<open>
  C3 as stated fails: an array in the source does not replace the array in the target.
  Merging \<open>{a: [9]}\<close> into \<open>{a: [1, 2, 3]}\<close> gives \<open>{a: [9, 2, 3]}\<close>, not \<open>{a: [9]}\<close>.
\<close>

theorem array_not_replaced_counterexample:
  "customMerge [(''a'', JArr [JNum 1, JNum 2, JNum 3])] [(''a'', JArr [JNum 9])] =
     [(''a'', JArr [JNum 9, JNum 2, JNum 3])] \<and>
   get_prop (customMerge [(''a'', JArr [JNum 1, JNum 2, JNum 3])] [(''a'', JArr [JNum 9])]) ''a''
     \<noteq> JArr (reject [JNum 9] isNull)"
  by code_simp

text \<open>
  C3, amended. When the source value and the target value at a key are both arrays, the
  source array is merged into the target array position by position: the element at
  position \<open>i\<close> is the merge of the target's element there (\<open>undefined\<close> past its end)
  with the source's, the target's elements past the end of the source are kept, and the
  nulls are then removed from the result. That is the value stored at any depth, and the
  value found under a key of the state itself. For a source array of primitives the
  result is the source without its \<open>null\<close> and \<open>undefined\<close> elements, followed by the
  target's elements past the end of the source; it is the source without its nulls when
  the target array is not longer than the source.
\<close>

theorem array_values_merge_by_position:
  assumes "distinct (map fst object)" and "distinct (map fst source)"
    and "get_prop object k = JArr ts" and "(k, JArr ss) \<in> set source"
  shows "omittingCloneDeep isNull (mergeValue (JArr ts) (JArr ss)) =
           JArr (map (omittingCloneDeep isNull)
             (reject (map (\<lambda>(t, s). mergeValue t s)
                        (zip (ts @ replicate (length ss - length ts) JUndefined) ss) @
                      drop (length ss) ts) isNull)) \<and>
         get_prop (customMerge object source) k =
           omittingCloneDeep isNull (mergeValue (JArr ts) (JArr ss)) \<and>
         ((\<forall>s \<in> set ss. \<not> isObject s) \<longrightarrow>
            get_prop (customMerge object source) k =
              JArr (filter (\<lambda>s. s \<noteq> JNull \<and> s \<noteq> JUndefined) ss @
                    map (omittingCloneDeep isNull) (reject (drop (length ss) ts) isNull))) \<and>
         ((\<forall>s \<in> set ss. \<not> isObject s) \<and> length ts \<le> length ss \<longrightarrow>
            get_prop (customMerge object source) k =
              JArr (filter (\<lambda>s. s \<noteq> JNull \<and> s \<noteq> JUndefined) ss))"
proof -
  let ?pad = "ts @ replicate (length ss - length ts) JUndefined"
  let ?zipped = "map (\<lambda>(t, s). mergeValue t s) (zip ?pad ss)"
  have merged: "get_prop (mergeWith object source) k = JArr (?zipped @ drop (length ss) ts)"
    using get_prop_mergeWith [OF assms(2,4), of object] assms(3)
    by (simp only: mergeValue_arrays)
  have 1: "get_prop (customMerge object source) k =
      JArr (map (omittingCloneDeep isNull) (reject (?zipped @ drop (length ss) ts) isNull))"
    using get_prop_customMerge [OF assms(1), of source k] merged
    by (simp add: Let_def)
  have split: "map (omittingCloneDeep isNull) (reject (?zipped @ drop (length ss) ts) isNull) =
      map (omittingCloneDeep isNull) (reject ?zipped isNull) @
      map (omittingCloneDeep isNull) (reject (drop (length ss) ts) isNull)"
    by (simp add: reject_def)
  have 2: "map (omittingCloneDeep isNull) (reject ?zipped isNull) =
      filter (\<lambda>s. s \<noteq> JNull \<and> s \<noteq> JUndefined) ss" if "\<forall>s \<in> set ss. \<not> isObject s"
    using that by (intro primitive_elements_merge) simp_all
  have 3: "reject [] isNull = []"
    by (simp add: reject_def)
  have 4: "omittingCloneDeep isNull (mergeValue (JArr ts) (JArr ss)) =
      JArr (map (omittingCloneDeep isNull) (reject (?zipped @ drop (length ss) ts) isNull))"
    by (simp only: mergeValue_arrays omittingCloneDeep.simps)
  from 1 2 3 4 split show ?thesis
    by simp
qed

text \<open>
  The amended C3 at \<open>[1, null, 2]\<close> merged into \<open>[7, 8, 9, 10]\<close> and into \<open>[7, 8]\<close>.
\<close>

theorem array_values_merge_by_position_witness:
  "get_prop (customMerge [(''a'', JArr [JNum 7, JNum 8, JNum 9, JNum 10])]
       [(''a'', JArr [JNum 1, JNull, JNum 2])]) ''a'' = JArr [JNum 1, JNum 2, JNum 10] \<and>
   get_prop (customMerge [(''a'', JArr [JNum 7, JNum 8])]
       [(''a'', JArr [JNum 1, JNull, JNum 2])]) ''a'' = JArr [JNum 1, JNum 2]"
proof -
  have d: "distinct (map fst [(''a'', JArr [JNum 7, JNum 8, JNum 9, JNum 10])])"
    "distinct (map fst [(''a'', JArr [JNum 1, JNull, JNum 2])])"
    "distinct (map fst [(''a'', JArr [JNum 7, JNum 8])])"
    by simp_all
  have g: "get_prop [(''a'', JArr [JNum 7, JNum 8, JNum 9, JNum 10])] ''a'' =
      JArr [JNum 7, JNum 8, JNum 9, JNum 10]"
    "get_prop [(''a'', JArr [JNum 7, JNum 8])] ''a'' = JArr [JNum 7, JNum 8]"
    by simp_all
  have m: "(''a'', JArr [JNum 1, JNull, JNum 2]) \<in> set [(''a'', JArr [JNum 1, JNull, JNum 2])]"
    by simp
  from array_values_merge_by_position [OF d(1) d(2) g(1) m]
    array_values_merge_by_position [OF d(3) d(2) g(2) m]
  show ?thesis
    by (simp add: reject_def isNull_def)
qed

subsection \<open>C4: what a push appends\<close>

text \<open>
  C4. The claim is that a call of \<^verbatim>\<open>push\<close> appends exactly the arguments classified as
  Data or Event, in order and without holes. The code deletes the other arguments from
  the \<^verbatim>\<open>arguments\<close> object, which keeps its length, and appends only if the first
  argument is still there: \<open>push(f, {data: {a: 1}})\<close> dispatches both and appends
  nothing, \<open>push({data: {a: 1}}, f)\<close> appends the Data command and an \<open>undefined\<close> slot.
  A listener command given to \<^verbatim>\<open>push\<close> is deleted without being processed: it is not
  registered.
\<close>

theorem push_leaves_holes_or_nothing:
  "push quiet_env [JFun 0, JObj [(''data'', JObj [(''a'', JNum 1)])]] empty_manager =
     (Returned JUndefined,
      empty_manager\<lparr> state := [(''a'', JNum 1)],
        effects := [FunctionCall 0 (JArr []) [JArr []]] \<rparr>) \<and>
   push quiet_env [JObj [(''data'', JObj [(''a'', JNum 1)])], JFun 0] empty_manager =
     (Returned (JNum 2),
      empty_manager\<lparr> dataLayer := [JObj [(''data'', JObj [(''a'', JNum 1)])], JUndefined],
        state := [(''a'', JNum 1)],
        effects := [FunctionCall 0 (JArr []) [JArr []]] \<rparr>) \<and>
   push quiet_env [JObj [(''on'', JStr ''click''), (''handler'', JFun 7)]] empty_manager =
     (Returned JUndefined, empty_manager)"
  by code_simp

subsection \<open>C5: replay for a listener of the past\<close>

text \<open>
  C5. A ListenerOn command with scope Past that the construction loop processes at index
  \<open>i\<close> of the array triggers the new listener, and only it, on the commands built from
  the entries before \<open>i\<close>, in their order. The registry is as before, so whatever is
  triggered later goes to the listeners registered before only.
\<close>

theorem past_listener_replay:
  assumes "i < length (dataLayer m)"
    and "classify (dataLayer m ! i) = LISTENER_ON"
    and "scope (Listener (Item (dataLayer m ! i) (Some i))) = SCOPE_PAST"
  shows "processItem e (Item (dataLayer m ! i) (Some i)) m =
           (Returned JUndefined,
            m\<lparr> effects := effects m @
                concat (map (\<lambda>itemConfig.
                    handler_effects e (Listener (Item (dataLayer m ! i) (Some i)))
                      (Item itemConfig None))
                  (take i (dataLayer m))) \<rparr>) \<and>
         listeners (snd (processItem e (Item (dataLayer m ! i) (Some i)) m)) = listeners m \<and>
         (\<forall>later.
            effects (triggerListeners e later
                (snd (processItem e (Item (dataLayer m ! i) (Some i)) m))) =
              effects (snd (processItem e (Item (dataLayer m ! i) (Some i)) m)) @
              concat (map (\<lambda>l. handler_effects e l later) (listeners m)))"
proof -
  let ?it = "Item (dataLayer m ! i) (Some i)"
  have "getBefore ?it m = map (\<lambda>itemConfig. Item itemConfig None) (take i (dataLayer m))"
    using assms(1) by (auto simp: getBefore_def Let_def)
  moreover have "processItem e ?it m =
      (Returned JUndefined, replay e (Listener ?it) (getBefore ?it m) m)"
    using assms(2,3) by (simp add: processItem_def process_listenerOn_def Let_def)
  ultimately show ?thesis
    by (simp add: replay_eq comp_def triggerListeners_effects)
qed

text \<open>
  C5 at the array \<open>[{event: click}, {on: click, handler, scope: past}]\<close>: the listener is
  called once, for the event before it.
\<close>

theorem past_listener_replay_witness:
  "processItem quiet_env
     (Item past_listener (Some 1))
     (empty_manager\<lparr> dataLayer := [JObj [(''event'', JStr ''click'')], past_listener] \<rparr>) =
   (Returned JUndefined,
    empty_manager\<lparr> dataLayer := [JObj [(''event'', JStr ''click'')], past_listener],
      effects := [HandlerCall (Listener (Item past_listener (Some 1)))
                   (Item (JObj [(''event'', JStr ''click'')]) None)] \<rparr>)"
proof -
  let ?m = "empty_manager\<lparr> dataLayer := [JObj [(''event'', JStr ''click'')], past_listener] \<rparr>"
  have 1: "1 < length (dataLayer ?m)" by simp
  have 2: "classify (dataLayer ?m ! 1) = LISTENER_ON" by (simp add: past_listener_def)
  have 3: "scope (Listener (Item (dataLayer ?m ! 1) (Some 1))) = SCOPE_PAST"
    by (simp add: past_listener_def Listener_def Item_def parse_scope_def)
  from past_listener_replay [OF 1 2 3, of quiet_env]
  show ?thesis
    by (simp add: empty_manager_def handler_effects_def quiet_env_def handler_throws_def
        Listener_def Item_def past_listener_def)
qed

subsection \<open>C6: Invalid commands\<close>

text \<open>
  C6. The claim is that an Invalid command is reported with a diagnostic wherever it
  comes from. The construction loop does report it; \<^verbatim>\<open>push\<close> deletes the argument and
  never hands it to \<^verbatim>\<open>_processItem\<close>, so nothing is written, and an Invalid argument
  after a retained first one leaves an \<open>undefined\<close> slot in the array.
\<close>

theorem push_invalid_not_reported:
  "push quiet_env [JStr ''bad''] empty_manager = (Returned JUndefined, empty_manager) \<and>
   initialize quiet_env (JArr [JStr ''bad'']) =
     (Returned JUndefined, empty_manager\<lparr> effects := [ConsoleError (JStr ''bad'')] \<rparr>) \<and>
   dataLayer (snd (push quiet_env [JObj [(''data'', JObj [])], JStr ''bad''] empty_manager)) =
     [JObj [(''data'', JObj [])], JUndefined]"
  by code_simp

subsection \<open>C7: exceptions of callbacks\<close>

text \<open>
  C7 as stated fails for the Function command: \<^verbatim>\<open>typeProcessors.fctn\<close> calls the function
  with nothing around it, so its exception leaves \<^verbatim>\<open>push\<close>. In \<open>push(f, {data: {a: 1}})\<close>
  with a throwing \<open>f\<close> the exception reaches the caller and the Data command is never
  merged.
\<close>

theorem function_exception_counterexample:
  "push throwing_env [JFun 0, JObj [(''data'', JObj [(''a'', JNum 1)])]] empty_manager =
     (Raised (Thrown 0), empty_manager\<lparr> effects := [FunctionCall 0 (JArr []) [JArr []]] \<rparr>)"
  by code_simp

text \<open>
  C7, amended. An exception of a listener's handler is caught where the registry calls
  the handler: every registered listener that matches is still called, and a call of
  \<^verbatim>\<open>push\<close> none of whose Function arguments throws returns, whatever the handlers do. An
  exception of a Function command's function is not caught: \<^verbatim>\<open>push\<close> raises it at the
  first Function argument that throws, the arguments after it are not processed and
  nothing is appended.
\<close>

theorem function_exception_leaves_push:
  "((\<forall>f. JFun f \<in> set args \<longrightarrow> \<not> throws e f) \<longrightarrow> (\<exists>r. fst (push e args m) = Returned r)) \<and>
   ((\<forall>g. JFun g \<in> set pre \<longrightarrow> \<not> throws e g) \<and> throws e f \<longrightarrow>
      push e (pre @ JFun f # post) m =
        (Raised (Thrown f),
         (snd (snd (push_args e pre m)))\<lparr> effects := effects (snd (snd (push_args e pre m))) @
            [FunctionCall f (JArr (dataLayer m)) [JArr (dataLayer m)]] \<rparr>)) \<and>
   effects (triggerListeners e it m) =
     effects m @ concat (map (\<lambda>l. handler_effects e l it) (listeners m))"
proof -
  have 1: "(\<forall>f. JFun f \<in> set args \<longrightarrow> \<not> throws e f) \<longrightarrow> (\<exists>r. fst (push e args m) = Returned r)"
  proof
    assume "\<forall>f. JFun f \<in> set args \<longrightarrow> \<not> throws e f"
    from push_args_no_throw [OF this, of m] obtain r where "fst (push_args e args m) = Returned r"
      by blast
    then show "\<exists>r. fst (push e args m) = Returned r"
      by (cases "push_args e args m") (auto simp: push_def)
  qed
  have 2: "(\<forall>g. JFun g \<in> set pre \<longrightarrow> \<not> throws e g) \<and> throws e f \<longrightarrow>
      push e (pre @ JFun f # post) m =
        (Raised (Thrown f),
         (snd (snd (push_args e pre m)))\<lparr> effects := effects (snd (snd (push_args e pre m))) @
            [FunctionCall f (JArr (dataLayer m)) [JArr (dataLayer m)]] \<rparr>)"
  proof
    assume h: "(\<forall>g. JFun g \<in> set pre \<longrightarrow> \<not> throws e g) \<and> throws e f"
    from push_args_throw [of pre e f post m] h
    show "push e (pre @ JFun f # post) m =
        (Raised (Thrown f),
         (snd (snd (push_args e pre m)))\<lparr> effects := effects (snd (snd (push_args e pre m))) @
            [FunctionCall f (JArr (dataLayer m)) [JArr (dataLayer m)]] \<rparr>)"
      by (cases "push_args e (pre @ JFun f # post) m") (auto simp: push_def)
  qed
  from 1 2 show ?thesis
    by (simp add: triggerListeners_effects)
qed

text \<open>
  The amended C7 where the callback \<open>0\<close> throws: \<open>push(f1)\<close> returns, and
  \<open>push({data: {a: 1}}, f0, {data: {b: 2}})\<close> raises after the first merge.
\<close>

theorem function_exception_leaves_push_witness:
  "(\<exists>r. fst (push throwing_env [JFun 1] empty_manager) = Returned r) \<and>
   push throwing_env
     ([JObj [(''data'', JObj [(''a'', JNum 1)])]] @ JFun 0 #
      [JObj [(''data'', JObj [(''b'', JNum 2)])]]) empty_manager =
     (Raised (Thrown 0),
      empty_manager\<lparr> state := [(''a'', JNum 1)],
        effects := [FunctionCall 0 (JArr []) [JArr []]] \<rparr>)"
proof -
  let ?d = "JObj [(''data'', JObj [(''a'', JNum 1)])]"
  have 1: "\<forall>f. JFun f \<in> set [JFun 1] \<longrightarrow> \<not> throws throwing_env f"
    by (simp add: throwing_env_def)
  have 2: "(\<forall>g. JFun g \<in> set [?d] \<longrightarrow> \<not> throws throwing_env g) \<and> throws throwing_env 0"
    by (simp add: throwing_env_def)
  have 3: "snd (snd (push_args throwing_env [?d] empty_manager)) =
      empty_manager\<lparr> state := [(''a'', JNum 1)] \<rparr>"
    by code_simp
  from function_exception_leaves_push
    [of "[JFun 1]" throwing_env empty_manager "[?d]" 0 "[JObj [(''data'', JObj [(''b'', JNum 2)])]]"]
    1 2 3
  show ?thesis
    by (simp add: empty_manager_def)
qed

subsection \<open>C8: Function commands\<close>

text \<open>
  C8 as stated fails: the function of a Function command is not called when a function
  before it in the same call throws. In \<open>push(f0, f1)\<close> with a throwing \<open>f0\<close> the call
  raises at \<open>f0\<close> and \<open>f1\<close> is never called.
\<close>

theorem later_function_not_called_counterexample:
  "push throwing_env [JFun 0, JFun 1] empty_manager =
     (Raised (Thrown 0), empty_manager\<lparr> effects := [FunctionCall 0 (JArr []) [JArr []]] \<rparr>)"
  by code_simp

text \<open>
  C8, amended. A call of \<^verbatim>\<open>push\<close> calls the functions among its arguments in order, each
  exactly once, with the data layer array as receiver and as argument, up to and
  including the first function that throws. When no function throws, every function is
  called and the call returns; when one throws, the call raises and the functions after
  it are not called. What is appended holds no function, and processing a Function
  command changes neither the state nor the registry and calls no listener: its only
  effect is the call.
\<close>

theorem reached_functions_called_once:
  "filter is_function_call (effects (snd (push e args m))) =
     filter is_function_call (effects m) @
     map (\<lambda>f. FunctionCall f (JArr (dataLayer m)) [JArr (dataLayer m)])
       (function_args (reached e args)) \<and>
   ((\<forall>f. JFun f \<in> set args \<longrightarrow> \<not> throws e f) \<longrightarrow>
      reached e args = args \<and> (\<exists>r. fst (push e args m) = Returned r)) \<and>
   ((\<exists>f. JFun f \<in> set args \<and> throws e f) \<longrightarrow> (\<exists>x. fst (push e args m) = Raised x)) \<and>
   (\<exists>appended. dataLayer (snd (push e args m)) = dataLayer m @ appended \<and>
      (\<forall>a \<in> set appended. classify a \<noteq> FCTN)) \<and>
   processItem e (Item (JFun f) None) m =
     (if throws e f then Raised (Thrown f) else Returned JUndefined,
      m\<lparr> effects := effects m @
          [FunctionCall f (JArr (dataLayer m)) [JArr (dataLayer m)]] \<rparr>)"
proof -
  have 1: "filter is_function_call (effects (snd (push e args m))) =
     filter is_function_call (effects m) @
     map (\<lambda>f. FunctionCall f (JArr (dataLayer m)) [JArr (dataLayer m)])
       (function_args (reached e args))"
    using push_run [of e args m] push_args_run [of e args m]
    by (simp add: function_calls_arg_effects)
  have 2: "(\<forall>f. JFun f \<in> set args \<longrightarrow> \<not> throws e f) \<longrightarrow>
      reached e args = args \<and> (\<exists>r. fst (push e args m) = Returned r)"
  proof
    assume h: "\<forall>f. JFun f \<in> set args \<longrightarrow> \<not> throws e f"
    from push_args_quiet [OF h, of m] have "\<exists>r. fst (push e args m) = Returned r"
      by (cases "push_args e args m") (auto simp: push_def)
    with reached_all [OF h] show "reached e args = args \<and> (\<exists>r. fst (push e args m) = Returned r)"
      by simp
  qed
  have 3: "(\<exists>f. JFun f \<in> set args \<and> throws e f) \<longrightarrow> (\<exists>x. fst (push e args m) = Raised x)"
  proof
    assume "\<exists>f. JFun f \<in> set args \<and> throws e f"
    from push_args_raises [OF this, of m] show "\<exists>x. fst (push e args m) = Raised x"
      by (cases "push_args e args m") (auto simp: push_def)
  qed
  have 4: "\<exists>appended. dataLayer (snd (push e args m)) = dataLayer m @ appended \<and>
      (\<forall>a \<in> set appended. classify a \<noteq> FCTN)"
  proof (cases "\<exists>r. fst (push_args e args m) = Returned r")
    case False
    with push_args_run [of e args m] have "dataLayer (snd (push e args m)) = dataLayer m @ []"
      by (cases "push_args e args m"; cases "fst (push_args e args m)") (auto simp: push_def)
    then show ?thesis by (metis empty_iff list.set(1))
  next
    case True
    then obtain r where r: "fst (push_args e args m) = Returned r" by blast
    obtain c fl m1 where pa: "push_args e args m = (c, fl, m1)"
      by (cases "push_args e args m") auto
    from push_args_returned [OF r] pa
    have fl: "fl = map (\<lambda>a. if retained a then a else JUndefined) args"
      and dl: "dataLayer m1 = dataLayer m"
      by simp_all
    have nofun: "\<forall>a \<in> set fl. classify a \<noteq> FCTN"
      unfolding fl by (auto simp: retained_def)
    show ?thesis
    proof (cases "truthy (get_index fl 0)")
      case True
      with pa r dl have "dataLayer (snd (push e args m)) = dataLayer m @ fl"
        by (simp add: push_def)
      with nofun show ?thesis by blast
    next
      case False
      with pa r dl have "dataLayer (snd (push e args m)) = dataLayer m @ []"
        by (simp add: push_def)
      then show ?thesis by (metis empty_iff list.set(1))
    qed
  qed
  from 1 2 3 4 show ?thesis
    by (simp add: processItem_function)
qed

text \<open>
  The amended C8 at \<open>push(f3, {data: {a: 1}}, f4)\<close> where nothing throws, and at
  \<open>push(f3, f0, f4)\<close> where \<open>f0\<close> throws.
\<close>

theorem reached_functions_called_once_witness:
  "filter is_function_call
     (effects (snd (push quiet_env
        [JFun 3, JObj [(''data'', JObj [(''a'', JNum 1)])], JFun 4] empty_manager))) =
     [FunctionCall 3 (JArr []) [JArr []], FunctionCall 4 (JArr []) [JArr []]] \<and>
   (\<exists>r. fst (push quiet_env
        [JFun 3, JObj [(''data'', JObj [(''a'', JNum 1)])], JFun 4] empty_manager) = Returned r) \<and>
   filter is_function_call
     (effects (snd (push throwing_env [JFun 3, JFun 0, JFun 4] empty_manager))) =
     [FunctionCall 3 (JArr []) [JArr []], FunctionCall 0 (JArr []) [JArr []]] \<and>
   (\<exists>x. fst (push throwing_env [JFun 3, JFun 0, JFun 4] empty_manager) = Raised x)"
proof -
  let ?args = "[JFun 3, JObj [(''data'', JObj [(''a'', JNum 1)])], JFun 4]"
  have q: "\<forall>f. JFun f \<in> set ?args \<longrightarrow> \<not> throws quiet_env f"
    by (simp add: quiet_env_def)
  have t: "\<exists>f. JFun f \<in> set [JFun 3, JFun 0, JFun 4] \<and> throws throwing_env f"
    by (simp add: throwing_env_def)
  have r: "reached throwing_env [JFun 3, JFun 0, JFun 4] = [JFun 3, JFun 0]"
    by (simp add: throwing_env_def)
  from reached_functions_called_once [of quiet_env ?args empty_manager]
    reached_functions_called_once [of throwing_env "[JFun 3, JFun 0, JFun 4]" empty_manager]
    q t r
  show ?thesis
    by (simp add: empty_manager_def)
qed

subsection \<open>C9: the readiness notification\<close>

text \<open>
  C9. The claim is that construction fires a readiness notification once the entries
  already in the array have been processed. \<^verbatim>\<open>_initialize\<close> ends with \<^verbatim>\<open>_processItems\<close>
  and triggers nothing afterwards: with a listener for any event \<open>ev\<close> in the array, where
  every listener matches every command, no handler is called.
\<close>

theorem initialize_fires_nothing:
  "initialize quiet_env (JArr [JObj [(''on'', JStr ev), (''handler'', JFun h)]]) =
     (Returned JUndefined,
      empty_manager\<lparr> listeners :=
        [\<lparr> event = JStr ev, path = JUndefined, scope = SCOPE_ALL, handler = JFun h \<rparr>] \<rparr>) \<and>
   initialize quiet_env (JArr []) = (Returned JUndefined, empty_manager)"
proof -
  let ?l = "JObj [(''on'', JStr ev), (''handler'', JFun h)]"
  let ?m0 = "\<lparr> dataLayer = [?l], state = [], previousStateCopy = [], listeners = [], effects = [] \<rparr>"
  have p: "processItem quiet_env (Item ?l (Some 0)) ?m0 =
     (Returned JUndefined, ?m0\<lparr> listeners :=
        [\<lparr> event = JStr ev, path = JUndefined, scope = SCOPE_ALL, handler = JFun h \<rparr>] \<rparr>)"
    by (simp add: processItem_def process_listenerOn_def Item_def Listener_def parse_scope_def
        register_def getBefore_def replay_def Let_def)
  have r: "removable (Item ?l (Some 0))"
    by (simp add: removable_def Item_def)
  have "processItems quiet_env 0 ?m0 =
     (Returned JUndefined,
      empty_manager\<lparr> listeners :=
        [\<lparr> event = JStr ev, path = JUndefined, scope = SCOPE_ALL, handler = JFun h \<rparr>] \<rparr>)"
    apply (subst processItems.simps)
    apply (simp add: p r Let_def del: processItem_def)
    apply (subst processItems.simps)
    apply (simp add: splice1_def empty_manager_def)
    done
  moreover have "initialize quiet_env (JArr []) = (Returned JUndefined, empty_manager)"
    by code_simp
  ultimately show ?thesis
    by (simp add: initialize_def)
qed

subsection \<open>C10: the first argument of push\<close>

text \<open>
  C10 as stated fails when a Function argument throws: with a throwing function as first
  argument the call raises instead of returning \<open>undefined\<close>, and the argument after it
  is not dispatched.
\<close>

theorem throwing_first_argument_counterexample:
  "push throwing_env [JFun 0, click_event] empty_manager =
     (Raised (Thrown 0), empty_manager\<lparr> effects := [FunctionCall 0 (JArr []) [JArr []]] \<rparr>) \<and>
   fst (push throwing_env [JFun 0, click_event] empty_manager) \<noteq> Returned JUndefined"
  by code_simp

text \<open>
  C10, amended. A call of \<^verbatim>\<open>push\<close> dispatches its arguments in order, up to and including
  the first function that throws: a Data command and an Event command with data are
  merged into the state, after a snapshot of it; a Data or Event command has the
  registered listeners triggered; a function is called; a listener command and an
  Invalid argument do nothing. The registry is as before. When no Function argument
  throws the call returns: if the first argument is classified as ListenerOn,
  ListenerOff, Function or Invalid, it returns \<open>undefined\<close> and the array is as before,
  though every argument has been dispatched; if the first argument is classified as Data
  or Event, the array gains the arguments, with \<open>undefined\<close> in the place of each deleted
  one, and the call returns the new length. When a Function argument throws the call
  raises and the array is as before.
\<close>

theorem push_dispatches_and_first_argument_decides:
  "state (snd (push e (a # as) m)) =
     foldl customMerge (state m)
       (map (\<lambda>x. source_of (Item x None)) (filter merging (reached e (a # as)))) \<and>
   previousStateCopy (snd (push e (a # as) m)) =
     (if filter merging (reached e (a # as)) = [] then previousStateCopy m
      else foldl customMerge (state m)
             (map (\<lambda>x. source_of (Item x None))
               (butlast (filter merging (reached e (a # as)))))) \<and>
   effects (snd (push e (a # as) m)) =
     effects m @ concat (map (arg_effects e m) (reached e (a # as))) \<and>
   listeners (snd (push e (a # as) m)) = listeners m \<and>
   ((\<forall>f. JFun f \<in> set (a # as) \<longrightarrow> \<not> throws e f) \<longrightarrow>
      reached e (a # as) = a # as \<and>
      (classify a \<in> {LISTENER_ON, LISTENER_OFF, FCTN, INVALID} \<longrightarrow>
         fst (push e (a # as) m) = Returned JUndefined \<and>
         dataLayer (snd (push e (a # as) m)) = dataLayer m) \<and>
      (classify a \<in> {DATA, EVENT} \<longrightarrow>
         fst (push e (a # as) m) =
           Returned (JNum (int (length (dataLayer m) + length (a # as)))) \<and>
         dataLayer (snd (push e (a # as) m)) =
           dataLayer m @ map (\<lambda>x. if retained x then x else JUndefined) (a # as))) \<and>
   ((\<exists>f. JFun f \<in> set (a # as) \<and> throws e f) \<longrightarrow>
      (\<exists>x. fst (push e (a # as) m) = Raised x) \<and>
      dataLayer (snd (push e (a # as) m)) = dataLayer m)"
proof -
  let ?args = "a # as"
  obtain c fl m1 where pa: "push_args e ?args m = (c, fl, m1)"
    by (cases "push_args e ?args m") auto
  have run: "dataLayer m1 = dataLayer m"
    using push_args_run [of e ?args m] pa by simp
  have 1: "state (snd (push e ?args m)) =
     foldl customMerge (state m)
       (map (\<lambda>x. source_of (Item x None)) (filter merging (reached e ?args)))"
    and 2: "previousStateCopy (snd (push e ?args m)) =
     (if filter merging (reached e ?args) = [] then previousStateCopy m
      else foldl customMerge (state m)
             (map (\<lambda>x. source_of (Item x None))
               (butlast (filter merging (reached e ?args)))))"
    and 3: "effects (snd (push e ?args m)) =
     effects m @ concat (map (arg_effects e m) (reached e ?args))"
    and 4: "listeners (snd (push e ?args m)) = listeners m"
    using push_run [of e ?args m] push_args_run [of e ?args m] by simp_all
  have 5: "(\<forall>f. JFun f \<in> set ?args \<longrightarrow> \<not> throws e f) \<longrightarrow>
      reached e ?args = ?args \<and>
      (classify a \<in> {LISTENER_ON, LISTENER_OFF, FCTN, INVALID} \<longrightarrow>
         fst (push e ?args m) = Returned JUndefined \<and>
         dataLayer (snd (push e ?args m)) = dataLayer m) \<and>
      (classify a \<in> {DATA, EVENT} \<longrightarrow>
         fst (push e ?args m) =
           Returned (JNum (int (length (dataLayer m) + length ?args))) \<and>
         dataLayer (snd (push e ?args m)) =
           dataLayer m @ map (\<lambda>x. if retained x then x else JUndefined) ?args)"
  proof
    assume h: "\<forall>f. JFun f \<in> set ?args \<longrightarrow> \<not> throws e f"
    from push_args_quiet [OF h, of m] pa
    have c: "c = Returned JUndefined"
      and fl: "fl = map (\<lambda>x. if retained x then x else JUndefined) ?args"
      by simp_all
    have first: "truthy (get_index fl 0) \<longleftrightarrow> retained a"
      unfolding fl by (simp add: get_index_def retained_truthy)
    have p: "push e ?args m =
        (if retained a
         then (Returned (JNum (int (length (dataLayer m1 @ fl)))),
               m1\<lparr> dataLayer := dataLayer m1 @ fl \<rparr>)
         else (Returned JUndefined, m1))"
      using pa c first by (simp add: push_def del: push_args.simps)
    have r: "retained a \<longleftrightarrow> classify a \<in> {DATA, EVENT}"
      "\<not> retained a \<longleftrightarrow> classify a \<in> {LISTENER_ON, LISTENER_OFF, FCTN, INVALID}"
      by (cases "classify a"; simp add: retained_def)+
    show "reached e ?args = ?args \<and>
      (classify a \<in> {LISTENER_ON, LISTENER_OFF, FCTN, INVALID} \<longrightarrow>
         fst (push e ?args m) = Returned JUndefined \<and>
         dataLayer (snd (push e ?args m)) = dataLayer m) \<and>
      (classify a \<in> {DATA, EVENT} \<longrightarrow>
         fst (push e ?args m) =
           Returned (JNum (int (length (dataLayer m) + length ?args))) \<and>
         dataLayer (snd (push e ?args m)) =
           dataLayer m @ map (\<lambda>x. if retained x then x else JUndefined) ?args)"
      using reached_all [OF h] r
      by (cases "retained a") (simp_all add: p run fl del: push_args.simps reached.simps)
  qed
  have 6: "(\<exists>f. JFun f \<in> set ?args \<and> throws e f) \<longrightarrow>
      (\<exists>x. fst (push e ?args m) = Raised x) \<and>
      dataLayer (snd (push e ?args m)) = dataLayer m"
  proof
    assume "\<exists>f. JFun f \<in> set ?args \<and> throws e f"
    from push_args_raises [OF this, of m] pa obtain x where "c = Raised x"
      by auto
    with pa run show "(\<exists>x. fst (push e ?args m) = Raised x) \<and>
      dataLayer (snd (push e ?args m)) = dataLayer m"
      by (simp add: push_def del: push_args.simps)
  qed
  from 1 2 3 4 5 6 show ?thesis
    by blast
qed

text \<open>
  The amended C10 at \<open>push(f1, {event: click, data: {a: 1}})\<close> with a registered listener:
  nothing is appended, yet the event is merged and the listener called. At
  \<open>push({event: click, data: {a: 1}}, f1)\<close> the array gains the event and an \<open>undefined\<close>
  slot; with a throwing \<open>f0\<close> in the place of \<open>f1\<close> the call raises after the merge.
\<close>

theorem push_dispatches_and_first_argument_decides_witness:
  "fst (push quiet_env [JFun 1, click_event] (empty_manager\<lparr> listeners := [click_listener] \<rparr>)) =
     Returned JUndefined \<and>
   dataLayer (snd (push quiet_env [JFun 1, click_event]
     (empty_manager\<lparr> listeners := [click_listener] \<rparr>))) = [] \<and>
   state (snd (push quiet_env [JFun 1, click_event]
     (empty_manager\<lparr> listeners := [click_listener] \<rparr>))) = [(''a'', JNum 1)] \<and>
   effects (snd (push quiet_env [JFun 1, click_event]
     (empty_manager\<lparr> listeners := [click_listener] \<rparr>))) =
     [FunctionCall 1 (JArr []) [JArr []], HandlerCall click_listener (Item click_event None)] \<and>
   fst (push quiet_env [click_event, JFun 1] empty_manager) = Returned (JNum 2) \<and>
   dataLayer (snd (push quiet_env [click_event, JFun 1] empty_manager)) =
     [click_event, JUndefined] \<and>
   (\<exists>x. fst (push throwing_env [click_event, JFun 0] empty_manager) = Raised x) \<and>
   dataLayer (snd (push throwing_env [click_event, JFun 0] empty_manager)) = [] \<and>
   state (snd (push throwing_env [click_event, JFun 0] empty_manager)) = [(''a'', JNum 1)]"
proof -
  let ?m = "empty_manager\<lparr> listeners := [click_listener] \<rparr>"
  note T1 = push_dispatches_and_first_argument_decides [of quiet_env "JFun 1" "[click_event]" ?m]
  note T2 = push_dispatches_and_first_argument_decides
    [of quiet_env click_event "[JFun 1]" empty_manager]
  note T3 = push_dispatches_and_first_argument_decides
    [of throwing_env click_event "[JFun 0]" empty_manager]
  have q1: "\<forall>f. JFun f \<in> set [JFun 1, click_event] \<longrightarrow> \<not> throws quiet_env f"
    and q2: "\<forall>f. JFun f \<in> set [click_event, JFun 1] \<longrightarrow> \<not> throws quiet_env f"
    by (simp_all add: quiet_env_def)
  have t: "\<exists>f. JFun f \<in> set [click_event, JFun 0] \<and> throws throwing_env f"
    by (simp add: throwing_env_def)
  have c1: "classify (JFun 1) \<in> {LISTENER_ON, LISTENER_OFF, FCTN, INVALID}"
    by simp
  have c2: "classify click_event \<in> {DATA, EVENT}"
    by (simp add: click_event_def)
  have r1: "filter merging (reached quiet_env [JFun 1, click_event]) = [click_event]"
    and r3: "filter merging (reached throwing_env [click_event, JFun 0]) = [click_event]"
    by (simp_all add: click_event_def merging_def quiet_env_def throwing_env_def)
  have s: "customMerge [] (source_of (Item click_event None)) = [(''a'', JNum 1)]"
    by code_simp
  have e1: "concat (map (arg_effects quiet_env ?m) (reached quiet_env [JFun 1, click_event])) =
      [FunctionCall 1 (JArr []) [JArr []], HandlerCall click_listener (Item click_event None)]"
    by (simp add: quiet_env_def arg_effects_def retained_def click_event_def handler_effects_def
        handler_throws_def click_listener_def empty_manager_def)
  from T1 [THEN conjunct1] r1 s
  have A1: "state (snd (push quiet_env [JFun 1, click_event] ?m)) = [(''a'', JNum 1)]"
    by (simp add: empty_manager_def)
  from T1 [THEN conjunct2, THEN conjunct2, THEN conjunct1] e1
  have A2: "effects (snd (push quiet_env [JFun 1, click_event] ?m)) =
      [FunctionCall 1 (JArr []) [JArr []], HandlerCall click_listener (Item click_event None)]"
    by (simp add: empty_manager_def)
  from T1 [THEN conjunct2, THEN conjunct2, THEN conjunct2, THEN conjunct2, THEN conjunct1,
      THEN mp, OF q1, THEN conjunct2, THEN conjunct1, THEN mp, OF c1]
  have A3: "fst (push quiet_env [JFun 1, click_event] ?m) = Returned JUndefined"
    "dataLayer (snd (push quiet_env [JFun 1, click_event] ?m)) = []"
    by (simp_all add: empty_manager_def)
  from T2 [THEN conjunct2, THEN conjunct2, THEN conjunct2, THEN conjunct2, THEN conjunct1,
      THEN mp, OF q2, THEN conjunct2, THEN conjunct2, THEN mp, OF c2]
  have B: "fst (push quiet_env [click_event, JFun 1] empty_manager) = Returned (JNum 2)"
    "dataLayer (snd (push quiet_env [click_event, JFun 1] empty_manager)) =
      [click_event, JUndefined]"
    by (simp_all add: empty_manager_def retained_def click_event_def)
  from T3 [THEN conjunct2, THEN conjunct2, THEN conjunct2, THEN conjunct2, THEN conjunct2,
      THEN mp, OF t]
  have C1: "\<exists>x. fst (push throwing_env [click_event, JFun 0] empty_manager) = Raised x"
    "dataLayer (snd (push throwing_env [click_event, JFun 0] empty_manager)) = []"
    by (simp_all add: empty_manager_def)
  from T3 [THEN conjunct1] r3 s
  have C2: "state (snd (push throwing_env [click_event, JFun 0] empty_manager)) = [(''a'', JNum 1)]"
    by (simp add: empty_manager_def)
  from A1 A2 A3 B C1 C2 show ?thesis
    by blast
qed

end
